theory Spec2Isabelle
  imports Main "HOL-Library.Sublist"
begin

section \<open>Python values, exceptions and text operations\<close>

text \<open>
  The three source files are Python: \<^verbatim>\<open>recipe_cli.py\<close> (the command line pipeline),
  \<^verbatim>\<open>main.py\<close> (class \<^verbatim>\<open>RecipeAssistant\<close>, with the Walmart search) and
  \<^verbatim>\<open>anthro_test.py\<close> (a copy of the model client of \<^verbatim>\<open>main.py\<close>).

  A value that \<^verbatim>\<open>json.loads\<close> can return is a \<open>json\<close>. A dict is an association list
  in insertion order; a lookup takes the first entry of a key, and the decoder \<open>loads\<close>
  below builds no second one. A float is kept as its literal text: no claim computes with
  one. Texts are strings of 8-bit characters, read as code points below 256.
\<close>

datatype json =
    JNull
  | JBool bool
  | JInt int
  | JFloat string
  | JStr string
  | JArr "json list"
  | JObj "(string \<times> json) list"

text \<open>
  An exception is its class, as far as an \<^verbatim>\<open>except\<close> clause of the sources tells classes
  apart (\<^verbatim>\<open>requests.RequestException\<close>, \<^verbatim>\<open>json.JSONDecodeError\<close>, any other
  \<^verbatim>\<open>Exception\<close>), and its message \<^verbatim>\<open>str(e)\<close>.
\<close>

datatype exn_class = RequestException | JSONDecodeError | OtherException

datatype exn = Exn exn_class string

fun py_type_name :: "json \<Rightarrow> string" where
  "py_type_name JNull = ''NoneType''"
| "py_type_name (JBool b) = ''bool''"
| "py_type_name (JInt i) = ''int''"
| "py_type_name (JFloat f) = ''float''"
| "py_type_name (JStr s) = ''str''"
| "py_type_name (JArr xs) = ''list''"
| "py_type_name (JObj kvs) = ''dict''"

definition attribute_error :: "json \<Rightarrow> string \<Rightarrow> exn" where
  "attribute_error v attr =
     Exn OtherException
       ([CHR 0x27] @ py_type_name v @ [CHR 0x27] @ '' object has no attribute ''
          @ [CHR 0x27] @ attr @ [CHR 0x27])"

definition type_error_not_iterable :: "json \<Rightarrow> exn" where
  "type_error_not_iterable v =
     Exn OtherException
       ([CHR 0x27] @ py_type_name v @ [CHR 0x27] @ '' object is not iterable'')"

text \<open>\<^verbatim>\<open>d.get(key, default)\<close>: only a dict has the method.\<close>

fun py_get :: "json \<Rightarrow> string \<Rightarrow> json \<Rightarrow> exn + json" where
  "py_get (JObj kvs) k dflt = Inr (case map_of kvs k of Some v \<Rightarrow> v | None \<Rightarrow> dflt)"
| "py_get v k dflt = Inl (attribute_error v ''get'')"

text \<open>\<^verbatim>\<open>for x in v\<close>: a list gives its items, a dict its keys, a str its characters.\<close>

fun py_iter :: "json \<Rightarrow> exn + json list" where
  "py_iter (JArr xs) = Inr xs"
| "py_iter (JObj kvs) = Inr (map (\<lambda>kv. JStr (fst kv)) kvs)"
| "py_iter (JStr s) = Inr (map (\<lambda>c. JStr [c]) s)"
| "py_iter v = Inl (type_error_not_iterable v)"

fun json_field :: "json \<Rightarrow> string \<Rightarrow> json option" where
  "json_field (JObj kvs) k = map_of kvs k"
| "json_field v k = None"

subsection \<open>\<^verbatim>\<open>str.strip\<close>, \<^verbatim>\<open>str.lower\<close>, \<^verbatim>\<open>str.isdigit\<close>, \<^verbatim>\<open>int\<close>\<close>

definition py_isspace :: "char \<Rightarrow> bool" where
  "py_isspace c =
     (let n = (of_char c :: nat)
      in (9 \<le> n \<and> n \<le> 13) \<or> (28 \<le> n \<and> n \<le> 32) \<or> n = 133 \<or> n = 160)"

definition py_lstrip :: "string \<Rightarrow> string" where
  "py_lstrip s = dropWhile py_isspace s"

definition py_rstrip :: "string \<Rightarrow> string" where
  "py_rstrip s = rev (dropWhile py_isspace (rev s))"

definition py_strip :: "string \<Rightarrow> string" where
  "py_strip s = py_rstrip (py_lstrip s)"

definition lower_char :: "char \<Rightarrow> char" where
  "lower_char c =
     (let n = (of_char c :: nat)
      in if (65 \<le> n \<and> n \<le> 90) \<or> (192 \<le> n \<and> n \<le> 222 \<and> n \<noteq> 215)
         then char_of (n + 32) else c)"

definition lower :: "string \<Rightarrow> string" where
  "lower s = map lower_char s"

text \<open>\<^verbatim>\<open>v.lower()\<close> on a value: only a str has the method.\<close>

fun py_lower :: "json \<Rightarrow> exn + string" where
  "py_lower (JStr s) = Inr (lower s)"
| "py_lower v = Inl (attribute_error v ''lower'')"

definition is_digit :: "char \<Rightarrow> bool" where
  "is_digit c = (let n = (of_char c :: nat) in 48 \<le> n \<and> n \<le> 57)"

definition digit_val :: "char \<Rightarrow> nat" where
  "digit_val c = of_char c - 48"

definition nat_of_digits :: "string \<Rightarrow> nat" where
  "nat_of_digits s = foldl (\<lambda>a c. 10 * a + digit_val c) 0 s"

subsection \<open>The fence marker and the pieces of \<^verbatim>\<open>split\<close> and \<^verbatim>\<open>rsplit\<close> the sources use\<close>

definition fence :: string where
  "fence = ''```''"

definition NL :: char where
  "NL = CHR 0x0A"

text \<open>\<^verbatim>\<open>"\n".join(text.split("\n")[1:])\<close>: the text after the first newline, empty if
  there is none.\<close>

definition drop_first_line :: "string \<Rightarrow> string" where
  "drop_first_line s = drop 1 (dropWhile (\<lambda>c. c \<noteq> NL) s)"

text \<open>\<^verbatim>\<open>text.rsplit(sep, 1)[0]\<close>: the text before the last occurrence of \<open>sep\<close>;
  \<open>before_last\<close> is \<open>None\<close> when \<open>sep\<close> does not occur, and then \<^verbatim>\<open>rsplit\<close> returns the
  whole text.\<close>

fun before_last :: "string \<Rightarrow> string \<Rightarrow> string option" where
  "before_last sep [] = (if sep = [] then Some [] else None)"
| "before_last sep (c # cs) =
     (case before_last sep cs of
        Some r \<Rightarrow> Some (c # r)
      | None \<Rightarrow> if prefix sep (c # cs) then Some [] else None)"

definition rsplit1_head :: "string \<Rightarrow> string \<Rightarrow> string" where
  "rsplit1_head sep s = (case before_last sep s of Some h \<Rightarrow> h | None \<Rightarrow> s)"

section \<open>The response cleaners\<close>

text \<open>
  \<^verbatim>\<open>recipe_cli.call_claude\<close>, lines 50 to 56, from the reply text to the text handed to
  \<^verbatim>\<open>json.loads\<close>:
  \<^verbatim>\<open>
    text = response.content[0].text.strip()
    if text.startswith("```"):
        text = "\n".join(text.split("\n")[1:])
        if "```" in text:
            text = text.rsplit("```", 1)[0]
    return json.loads(text.strip())
  \<close>
\<close>

definition clean_cli :: "string \<Rightarrow> string" where
  "clean_cli raw =
     (let text = py_strip raw in
      if prefix fence text then
        (let text1 = drop_first_line text in
         if sublist fence text1 then py_strip (rsplit1_head fence text1)
         else py_strip text1)
      else py_strip text)"

text \<open>
  \<^verbatim>\<open>RecipeAssistant._call_claude\<close> (\<^verbatim>\<open>main.py\<close>, lines 72 to 82; \<^verbatim>\<open>anthro_test.py\<close> has
  the same lines). The reply is not stripped first, and \<^verbatim>\<open>text.split("\n", 1)[1]\<close>
  raises IndexError when the text has no newline:
  \<^verbatim>\<open>
    text = response.content[0].text
    if text.startswith("```"):
        text = text.split("\n", 1)[1]
        if text.endswith("```"):
            text = text[:-3]
        elif "```" in text:
            text = text.rsplit("```", 1)[0]
    return json.loads(text.strip())
  \<close>
\<close>

definition index_error :: exn where
  "index_error = Exn OtherException ''list index out of range''"

definition clean_main :: "string \<Rightarrow> exn + string" where
  "clean_main raw =
     (if prefix fence raw then
        (if NL \<in> set raw then
           (let text1 = drop_first_line raw in
            if suffix fence text1 then Inr (py_strip (take (length text1 - 3) text1))
            else if sublist fence text1 then Inr (py_strip (rsplit1_head fence text1))
            else Inr (py_strip text1))
         else Inl index_error)
      else Inr (py_strip raw))"

section \<open>The standard library's \<^verbatim>\<open>json.loads\<close>\<close>

text \<open>
  The pipeline functions below take the JSON decoder as a parameter (the field
  \<open>json_loads\<close> of the world), so what is proved of them holds for every decoder.
  \<open>loads\<close> is the decoder used in the concrete runs: the grammar that
  \<^verbatim>\<open>json.loads\<close> accepts with its default settings (RFC 8259, the literals
  \<^verbatim>\<open>NaN\<close>, \<^verbatim>\<open>Infinity\<close> and \<^verbatim>\<open>-Infinity\<close>, a control character inside a string
  refused, the last value kept for a repeated key). It is not code of this repository.
  The decoder's messages are shortened, and a \<^verbatim>\<open>\u\<close> escape is decoded below code
  point 256 only. The recursion over nested values is bounded by fuel, which \<open>loads\<close>
  sets from the number of characters of the text that are not white space: each call
  reads at least one of them.
\<close>

definition json_ws :: "char \<Rightarrow> bool" where
  "json_ws c = (c = CHR '' '' \<or> c = CHR 0x09 \<or> c = CHR 0x0A \<or> c = CHR 0x0D)"

definition skip_ws :: "string \<Rightarrow> string" where
  "skip_ws s = dropWhile json_ws s"

definition hex_val :: "char \<Rightarrow> nat option" where
  "hex_val c =
     (let n = (of_char c :: nat) in
      if 48 \<le> n \<and> n \<le> 57 then Some (n - 48)
      else if 97 \<le> n \<and> n \<le> 102 then Some (n - 87)
      else if 65 \<le> n \<and> n \<le> 70 then Some (n - 55)
      else None)"

definition unescape :: "char \<Rightarrow> char option" where
  \<open>unescape e =
     (if e = CHR ''"'' then Some (CHR ''"'')
      else if e = CHR 0x5C then Some (CHR 0x5C)
      else if e = CHR ''/'' then Some (CHR ''/'')
      else if e = CHR ''b'' then Some (CHR 0x08)
      else if e = CHR ''f'' then Some (CHR 0x0C)
      else if e = CHR ''n'' then Some (CHR 0x0A)
      else if e = CHR ''r'' then Some (CHR 0x0D)
      else if e = CHR ''t'' then Some (CHR 0x09)
      else None)\<close>

definition unescape_u :: "string \<Rightarrow> char option" where
  "unescape_u hs =
     (case map hex_val hs of
        [Some x, Some y, Some z, Some w] \<Rightarrow>
          if x = 0 \<and> y = 0 then Some (char_of (16 * z + w)) else None
      | _ \<Rightarrow> None)"

text \<open>The text after an opening quote, up to the closing one.\<close>

fun scan_string :: "string \<Rightarrow> string \<Rightarrow> (string \<times> string) option" where
  "scan_string [] acc = None"
| \<open>scan_string (c # cs) acc =
     (if c = CHR ''"'' then Some (rev acc, cs)
      else if c = CHR 0x5C then
        (case cs of
           [] \<Rightarrow> None
         | e # cs1 \<Rightarrow>
             if e = CHR ''u'' then
               (case unescape_u (take 4 cs1) of
                  Some x \<Rightarrow> scan_string (drop 4 cs1) (x # acc)
                | None \<Rightarrow> None)
             else
               (case unescape e of
                  Some x \<Rightarrow> scan_string cs1 (x # acc)
                | None \<Rightarrow> None))
      else if (of_char c :: nat) < 32 then None
      else scan_string cs (c # acc))\<close>

definition scan_int :: "string \<Rightarrow> (string \<times> string) option" where
  "scan_int cs =
     (case cs of
        [] \<Rightarrow> None
      | c # r \<Rightarrow>
          if c = CHR ''0'' then Some ([c], r)
          else if is_digit c then Some (c # takeWhile is_digit r, dropWhile is_digit r)
          else None)"

definition scan_frac :: "string \<Rightarrow> string \<times> string" where
  "scan_frac cs =
     (case cs of
        [] \<Rightarrow> ([], cs)
      | c # r \<Rightarrow>
          if c = CHR ''.'' \<and> takeWhile is_digit r \<noteq> []
          then (c # takeWhile is_digit r, dropWhile is_digit r)
          else ([], cs))"

definition scan_exp :: "string \<Rightarrow> string \<times> string" where
  "scan_exp cs =
     (case cs of
        [] \<Rightarrow> ([], cs)
      | c # r \<Rightarrow>
          if c = CHR ''e'' \<or> c = CHR ''E'' then
            (let (sg, r1) =
               (case r of
                  [] \<Rightarrow> ([], r)
                | d # r0 \<Rightarrow> if d = CHR ''+'' \<or> d = CHR ''-'' then ([d], r0) else ([], r))
             in if takeWhile is_digit r1 \<noteq> []
                then (c # sg @ takeWhile is_digit r1, dropWhile is_digit r1)
                else ([], cs))
          else ([], cs))"

definition scan_number :: "string \<Rightarrow> (json \<times> string) option" where
  "scan_number cs =
     (let (neg, r0) = (case cs of [] \<Rightarrow> (False, cs)
                       | c # r \<Rightarrow> if c = CHR ''-'' then (True, r) else (False, cs))
      in case scan_int r0 of
           None \<Rightarrow> None
         | Some (ip, r1) \<Rightarrow>
             (let (fp, r2) = scan_frac r1; (ep, r3) = scan_exp r2 in
              if fp = [] \<and> ep = []
              then Some (JInt (if neg then - int (nat_of_digits ip) else int (nat_of_digits ip)), r3)
              else Some (JFloat ((if neg then ''-'' else []) @ ip @ fp @ ep), r3)))"

definition scan_literal :: "string \<Rightarrow> (json \<times> string) option" where
  "scan_literal cs =
     (if prefix ''null'' cs then Some (JNull, drop 4 cs)
      else if prefix ''true'' cs then Some (JBool True, drop 4 cs)
      else if prefix ''false'' cs then Some (JBool False, drop 5 cs)
      else case scan_number cs of
             Some r \<Rightarrow> Some r
           | None \<Rightarrow>
               if prefix ''NaN'' cs then Some (JFloat ''NaN'', drop 3 cs)
               else if prefix ''Infinity'' cs then Some (JFloat ''Infinity'', drop 8 cs)
               else if prefix ''-Infinity'' cs then Some (JFloat ''-Infinity'', drop 9 cs)
               else None)"

text \<open>A dict keeps the position of a key's first insertion and its last value.\<close>

fun dict_set :: "(string \<times> json) list \<Rightarrow> string \<Rightarrow> json \<Rightarrow> (string \<times> json) list" where
  "dict_set [] k v = [(k, v)]"
| "dict_set (p # ps) k v = (if fst p = k then (k, v) # ps else p # dict_set ps k v)"

fun parse_value :: "nat \<Rightarrow> string \<Rightarrow> (json \<times> string) option"
  and parse_elems :: "nat \<Rightarrow> string \<Rightarrow> json list \<Rightarrow> (json \<times> string) option"
  and parse_members :: "nat \<Rightarrow> string \<Rightarrow> (string \<times> json) list \<Rightarrow> (json \<times> string) option"
where
  "parse_value 0 cs = None"
| \<open>parse_value (Suc n) cs =
     (case cs of
        [] \<Rightarrow> None
      | c # r \<Rightarrow>
          if c = CHR ''"'' then
            (case scan_string r [] of
               Some (s, r1) \<Rightarrow> Some (JStr s, r1)
             | None \<Rightarrow> None)
          else if c = CHR ''{'' then
            (case skip_ws r of
               [] \<Rightarrow> None
             | d # r1 \<Rightarrow> if d = CHR ''}'' then Some (JObj [], r1)
                         else parse_members n (d # r1) [])
          else if c = CHR ''['' then
            (case skip_ws r of
               [] \<Rightarrow> None
             | d # r1 \<Rightarrow> if d = CHR '']'' then Some (JArr [], r1)
                         else parse_elems n (d # r1) [])
          else scan_literal cs)\<close>
| "parse_elems 0 cs acc = None"
| "parse_elems (Suc n) cs acc =
     (case parse_value n cs of
        None \<Rightarrow> None
      | Some (v, r) \<Rightarrow>
          (case skip_ws r of
             [] \<Rightarrow> None
           | c # r1 \<Rightarrow>
               if c = CHR '']'' then Some (JArr (acc @ [v]), r1)
               else if c = CHR '','' then parse_elems n (skip_ws r1) (acc @ [v])
               else None))"
| "parse_members 0 cs acc = None"
| \<open>parse_members (Suc n) cs acc =
     (case cs of
        [] \<Rightarrow> None
      | q # r \<Rightarrow>
          if q = CHR ''"'' then
            (case scan_string r [] of
               None \<Rightarrow> None
             | Some (k, r1) \<Rightarrow>
                 (case skip_ws r1 of
                    [] \<Rightarrow> None
                  | c # r2 \<Rightarrow>
                      if c = CHR '':'' then
                        (case parse_value n (skip_ws r2) of
                           None \<Rightarrow> None
                         | Some (v, r3) \<Rightarrow>
                             (case skip_ws r3 of
                                [] \<Rightarrow> None
                              | d # r4 \<Rightarrow>
                                  if d = CHR ''}'' then Some (JObj (dict_set acc k v), r4)
                                  else if d = CHR '','' then
                                    parse_members n (skip_ws r4) (dict_set acc k v)
                                  else None))
                      else None))
          else None)\<close>

definition fuel :: "string \<Rightarrow> nat" where
  "fuel s = 2 * length (filter (\<lambda>c. \<not> json_ws c) s) + 2"

definition loads :: "string \<Rightarrow> exn + json" where
  "loads s =
     (case parse_value (fuel s) (skip_ws s) of
        None \<Rightarrow> Inl (Exn JSONDecodeError ''Expecting value'')
      | Some (v, r) \<Rightarrow>
          if skip_ws r = [] then Inr v else Inl (Exn JSONDecodeError ''Extra data''))"

section \<open>The outside world and the effects of a run\<close>

text \<open>
  Everything a run reads from outside is a field of the world. Each answer is a value or
  the exception the call raises, so a theorem about every world is a theorem about every
  behaviour of these collaborators:
  \<^item> \<open>api_key\<close>: \<^verbatim>\<open>os.getenv('ANTHROPIC_API_KEY')\<close>;
  \<^item> \<open>http_get\<close>: \<^verbatim>\<open>requests.get\<close> on a URL;
  \<^item> \<open>soup_text_cli\<close>, \<open>soup_text_main\<close>: what BeautifulSoup makes of the body, with the
    elements each file removes and its call of \<^verbatim>\<open>get_text\<close>;
  \<^item> \<open>model_reply\<close>: \<^verbatim>\<open>client.messages.create(...)\<close> followed by \<^verbatim>\<open>.content[0].text\<close>;
  \<^item> \<open>json_loads\<close>: \<^verbatim>\<open>json.loads\<close>;
  \<^item> \<open>str_of\<close>: the text an f-string puts for a value (\<^verbatim>\<open>str\<close>);
  \<^item> \<open>url_quote\<close>: \<^verbatim>\<open>urllib.parse.quote\<close> on a str;
  \<^item> \<open>chrome_start\<close>, \<open>maximize_window\<close>: \<^verbatim>\<open>uc.Chrome()\<close> and
    \<^verbatim>\<open>driver.maximize_window()\<close>, with the exception if one is raised;
  \<^item> \<open>pages\<close>: what the browser shows at the first, second, ... search;
  \<^item> \<open>shopping_list_file\<close>: the content of \<^verbatim>\<open>shopping_list.json\<close>, or the exception of
    \<^verbatim>\<open>open\<close>;
  \<^item> \<open>float_is_zero\<close>: whether a float literal denotes zero.

  A prompt is recorded by its template and the values the f-string puts into it.
  \<^verbatim>\<open>print\<close> and \<^verbatim>\<open>time.sleep\<close> change nothing that is modelled; what a printed f-string
  evaluates is kept where it can raise.
\<close>

datatype prompt =
    ParsePromptCli string
  | ScalePromptCli json int json
  | ParsePromptMain string
  | ScalePromptMain int json

record response =
  status_code :: nat
  reason :: string
  resp_url :: string
  body :: string

text \<open>
  What one search shows: the answer of \<^verbatim>\<open>driver.get\<close>, of the wait for
  \<^verbatim>\<open>div[data-item-id]\<close>, of \<^verbatim>\<open>find_element(By.CSS_SELECTOR, sel).text\<close> for a selector,
  of the \<^verbatim>\<open>href\<close> of \<^verbatim>\<open>a[href*='/ip/']\<close>, and of \<^verbatim>\<open>find_elements(By.TAG_NAME, "a")\<close>
  with the \<^verbatim>\<open>href\<close> of each anchor. \<^verbatim>\<open>get_attribute\<close> returns a str or None.
\<close>

record page =
  navigate :: "string \<Rightarrow> exn option"
  container :: "exn option"
  find_text :: "string \<Rightarrow> exn + string"
  ip_link_href :: "exn + string option"
  anchor_hrefs :: "exn + (exn + string option) list"

record world =
  api_key :: "string option"
  http_get :: "string \<Rightarrow> exn + response"
  soup_text_cli :: "string \<Rightarrow> exn + string"
  soup_text_main :: "string \<Rightarrow> exn + string"
  model_reply :: "prompt \<Rightarrow> exn + string"
  json_loads :: "string \<Rightarrow> exn + json"
  str_of :: "json \<Rightarrow> string"
  url_quote :: "string \<Rightarrow> string"
  chrome_start :: "exn option"
  maximize_window :: "exn option"
  pages :: "nat \<Rightarrow> page"
  shopping_list_file :: "exn + string"
  float_is_zero :: "string \<Rightarrow> bool"

datatype event =
    EvFetch string
  | EvModel prompt
  | EvLaunch
  | EvNavigate string
  | EvSearch json

text \<open>The state a run changes: the browser handle \<^verbatim>\<open>self.driver\<close> (set or None), the
  number of searches made so far, and the log of the calls made to the outside.\<close>

record pstate =
  driver :: bool
  searches :: nat
  log :: "event list"

type_synonym 'a io = "pstate \<Rightarrow> (exn + 'a) \<times> pstate"

definition io_ret :: "'a \<Rightarrow> 'a io" where
  "io_ret x = (\<lambda>s. (Inr x, s))"

definition io_lift :: "exn + 'a \<Rightarrow> 'a io" where
  "io_lift r = (\<lambda>s. (r, s))"

definition io_bind :: "'a io \<Rightarrow> ('a \<Rightarrow> 'b io) \<Rightarrow> 'b io" where
  "io_bind m f = (\<lambda>s. case m s of (Inl e, s1) \<Rightarrow> (Inl e, s1) | (Inr x, s1) \<Rightarrow> f x s1)"

definition io_catch :: "'a io \<Rightarrow> (exn \<Rightarrow> 'a io) \<Rightarrow> 'a io" where
  "io_catch m h = (\<lambda>s. case m s of (Inl e, s1) \<Rightarrow> h e s1 | (Inr x, s1) \<Rightarrow> (Inr x, s1))"

definition emit :: "event \<Rightarrow> unit io" where
  "emit ev = (\<lambda>s. (Inr (), s\<lparr>log := log s @ [ev]\<rparr>))"

definition fresh :: pstate where
  "fresh = \<lparr>driver = False, searches = 0, log = []\<rparr>"

section \<open>\<^verbatim>\<open>recipe_cli.py\<close>\<close>

fun show_nat :: "nat \<Rightarrow> string" where
  "show_nat n =
     (if n < 10 then [char_of (48 + n)]
      else show_nat (n div 10) @ [char_of (48 + n mod 10)])"

text \<open>\<^verbatim>\<open>Response.raise_for_status\<close> of the requests library: HTTPError, a
  RequestException, for a status from 400 to 599 and for no other.\<close>

definition raise_for_status :: "response \<Rightarrow> exn + unit" where
  "raise_for_status r =
     (if 400 \<le> status_code r \<and> status_code r < 500 then
        Inl (Exn RequestException
               (show_nat (status_code r) @ '' Client Error: '' @ reason r
                  @ '' for url: '' @ resp_url r))
      else if 500 \<le> status_code r \<and> status_code r < 600 then
        Inl (Exn RequestException
               (show_nat (status_code r) @ '' Server Error: '' @ reason r
                  @ '' for url: '' @ resp_url r))
      else Inr ())"

text \<open>\<^verbatim>\<open>extract_recipe_text\<close> (lines 28 to 39): the GET, \<^verbatim>\<open>raise_for_status\<close>, then the
  text that BeautifulSoup leaves (\<open>soup_text_cli\<close>).\<close>

definition extract_recipe_text :: "world \<Rightarrow> string \<Rightarrow> string io" where
  "extract_recipe_text w url =
     io_bind (emit (EvFetch url)) (\<lambda>_.
     io_bind (io_lift (http_get w url)) (\<lambda>resp.
     io_bind (io_lift (raise_for_status resp)) (\<lambda>_.
     io_lift (soup_text_cli w (body resp)))))"

text \<open>\<^verbatim>\<open>call_claude\<close> (lines 42 to 56): one model call, the cleaner, the decoder.\<close>

definition call_claude :: "world \<Rightarrow> prompt \<Rightarrow> json io" where
  "call_claude w p =
     io_bind (emit (EvModel p)) (\<lambda>_.
     io_bind (io_lift (model_reply w p)) (\<lambda>raw.
     io_lift (json_loads w (clean_cli raw))))"

definition failure :: "string \<Rightarrow> json" where
  "failure msg = JObj [(''success'', JBool False), (''error'', JStr msg)]"

text \<open>The \<^verbatim>\<open>try\<close> block of \<^verbatim>\<open>process_recipe\<close> (lines 79 to 123). \<^verbatim>\<open>parsed.get\<close> is
  evaluated while the scale prompt is built; \<open>parsed\<close> is a dict from then on.\<close>

definition process_recipe_try :: "world \<Rightarrow> string \<Rightarrow> int \<Rightarrow> json io" where
  "process_recipe_try w url servings =
     io_bind (extract_recipe_text w url) (\<lambda>recipe_text.
     io_bind (call_claude w (ParsePromptCli (take 6000 recipe_text))) (\<lambda>parsed.
     io_bind (io_lift (py_get parsed ''original_servings'' (JInt 4))) (\<lambda>shown.
     io_bind (call_claude w (ScalePromptCli shown servings parsed)) (\<lambda>scaled.
     io_bind (io_lift (py_get parsed ''recipe_name'' (JStr ''Recipe''))) (\<lambda>dflt_name.
     io_bind (io_lift (py_get scaled ''recipe_name'' dflt_name)) (\<lambda>recipe_name.
     io_bind (io_lift (py_get parsed ''original_servings'' (JInt 4))) (\<lambda>original_servings.
     io_bind (io_lift (py_get scaled ''shopping_list'' (JArr []))) (\<lambda>shopping_list.
     io_bind (io_lift (py_get scaled ''estimated_total_cost'' (JInt 0))) (\<lambda>estimated_cost.
     io_bind (io_lift (py_get scaled ''storage_tips'' (JObj []))) (\<lambda>storage_tips.
     io_ret (JObj
       [(''success'', JBool True),
        (''url'', JStr url),
        (''recipe_name'', recipe_name),
        (''original_servings'', original_servings),
        (''scaled_servings'', JInt servings),
        (''shopping_list'', shopping_list),
        (''estimated_cost'', estimated_cost),
        (''storage_tips'', storage_tips)])))))))))))"

text \<open>The three \<^verbatim>\<open>except\<close> clauses (lines 125 to 130), in their order.\<close>

fun process_recipe_except :: "exn \<Rightarrow> json" where
  "process_recipe_except (Exn RequestException m) = failure (''Failed to fetch recipe: '' @ m)"
| "process_recipe_except (Exn JSONDecodeError m) =
     failure (''Failed to parse Claude response: '' @ m)"
| "process_recipe_except (Exn OtherException m) = failure m"

text \<open>\<^verbatim>\<open>process_recipe\<close> (lines 59 to 130). \<^verbatim>\<open>not api_key\<close> holds for None and for the
  empty string. Building the client object (line 77) calls nothing outside.\<close>

definition process_recipe :: "world \<Rightarrow> string \<Rightarrow> int \<Rightarrow> json io" where
  "process_recipe w url servings =
     (case api_key w of
        None \<Rightarrow> io_ret (failure ''ANTHROPIC_API_KEY not set'')
      | Some k \<Rightarrow>
          if k = [] then io_ret (failure ''ANTHROPIC_API_KEY not set'')
          else io_catch (process_recipe_try w url servings)
                        (\<lambda>e. io_ret (process_recipe_except e)))"

section \<open>\<^verbatim>\<open>main.py\<close>: the validator and the product search\<close>

definition res_bind :: "exn + 'a \<Rightarrow> ('a \<Rightarrow> exn + 'b) \<Rightarrow> exn + 'b" where
  "res_bind r f = (case r of Inl e \<Rightarrow> Inl e | Inr x \<Rightarrow> f x)"

definition invalid_keywords :: "(string \<times> string list) list" where
  "invalid_keywords =
     [(''produce'', [''seeds'', ''plant'', ''garden'', ''growing'']),
      (''dairy'', [''chips'', ''snacks'', ''artificial'']),
      (''meat'', [''pet'', ''dog'', ''cat'', ''toy''])]"

text \<open>\<^verbatim>\<open>is_valid_product\<close> (lines 329 to 347).\<close>

definition is_valid_product :: "string \<Rightarrow> json \<Rightarrow> exn + bool" where
  "is_valid_product product_name ingredient =
     res_bind (py_get ingredient ''category'' (JStr [])) (\<lambda>c.
     res_bind (py_lower c) (\<lambda>category.
     res_bind (py_get ingredient ''name'' (JStr [])) (\<lambda>nm.
     res_bind (py_lower nm) (\<lambda>name.
       if (case map_of invalid_keywords category of
             Some kws \<Rightarrow> list_ex (\<lambda>kw. sublist kw (lower product_name)) kws
           | None \<Rightarrow> False)
       then Inr False
       else if name \<noteq> [] \<and> \<not> sublist name (lower product_name) then Inr False
       else Inr True))))"

text \<open>\<^verbatim>\<open>_ensure_browser\<close> (lines 33 to 37): \<^verbatim>\<open>self.driver\<close> is assigned once
  \<^verbatim>\<open>uc.Chrome()\<close> has returned, before \<^verbatim>\<open>maximize_window\<close> is called.\<close>

definition ensure_browser :: "world \<Rightarrow> unit io" where
  "ensure_browser w =
     (\<lambda>s. if driver s then (Inr (), s)
          else (case chrome_start w of
                  Some e \<Rightarrow> (Inl e, s\<lparr>log := log s @ [EvLaunch]\<rparr>)
                | None \<Rightarrow>
                    (case maximize_window w of
                       Some e \<Rightarrow> (Inl e, s\<lparr>driver := True, log := log s @ [EvLaunch]\<rparr>)
                     | None \<Rightarrow> (Inr (), s\<lparr>driver := True, log := log s @ [EvLaunch]\<rparr>))))"

definition name_selectors :: "string list" where
  "name_selectors =
     [''span[data-automation-id='' @ [CHR 0x27] @ ''product-title'' @ [CHR 0x27] @ '']'',
      ''span.normal'',
      ''span.f6'']"

definition price_selectors :: "string list" where
  "price_selectors =
     [''[data-automation-id='' @ [CHR 0x27] @ ''product-price'' @ [CHR 0x27] @ '']'',
      ''div.price-main'',
      ''span.price'']"

text \<open>The name loop (lines 261 to 267): the text is assigned before it is validated, a
  bare \<^verbatim>\<open>except\<close> skips to the next selector, and the loop stops at the first valid text.\<close>

fun name_loop :: "page \<Rightarrow> json \<Rightarrow> string list \<Rightarrow> string option \<Rightarrow> string option" where
  "name_loop pg ingredient [] cur = cur"
| "name_loop pg ingredient (sel # sels) cur =
     (case find_text pg sel of
        Inl e \<Rightarrow> name_loop pg ingredient sels cur
      | Inr t \<Rightarrow>
          (case is_valid_product t ingredient of
             Inr True \<Rightarrow> Some t
           | Inr False \<Rightarrow> name_loop pg ingredient sels (Some t)
           | Inl e \<Rightarrow> name_loop pg ingredient sels (Some t)))"

text \<open>The fallback over all anchors (lines 274 to 281): an exception ends the scan.\<close>

fun scan_links :: "(exn + string option) list \<Rightarrow> string option" where
  "scan_links [] = None"
| "scan_links (Inl e # hs) = None"
| "scan_links (Inr None # hs) = scan_links hs"
| "scan_links (Inr (Some h) # hs) =
     (if h \<noteq> [] \<and> sublist ''/ip/'' h then Some h else scan_links hs)"

definition find_url :: "page \<Rightarrow> string option" where
  "find_url pg =
     (case ip_link_href pg of
        Inr h \<Rightarrow> h
      | Inl e \<Rightarrow> (case anchor_hrefs pg of Inl e1 \<Rightarrow> None | Inr hs \<Rightarrow> scan_links hs))"

text \<open>The price loop (lines 288 to 294): the first text that is not empty.\<close>

fun price_loop :: "page \<Rightarrow> string list \<Rightarrow> string option \<Rightarrow> string option" where
  "price_loop pg [] cur = cur"
| "price_loop pg (sel # sels) cur =
     (case find_text pg sel of
        Inl e \<Rightarrow> price_loop pg sels cur
      | Inr t \<Rightarrow> if t \<noteq> [] then Some t else price_loop pg sels (Some t))"

text \<open>\<^verbatim>\<open>value or sentinel\<close>, for a value that is a str or None.\<close>

definition or_else :: "string option \<Rightarrow> string \<Rightarrow> string" where
  "or_else v sentinel = (case v of Some t \<Rightarrow> if t \<noteq> [] then t else sentinel | None \<Rightarrow> sentinel)"

text \<open>\<^verbatim>\<open>urllib.parse.quote\<close> takes a str (or bytes): TypeError for any other value.\<close>

fun py_quote :: "world \<Rightarrow> json \<Rightarrow> exn + string" where
  "py_quote w (JStr s) = Inr (url_quote w s)"
| "py_quote w v = Inl (Exn OtherException ''quote_from_bytes() expected bytes'')"

definition quantity_needed :: "world \<Rightarrow> json \<Rightarrow> exn + string" where
  "quantity_needed w ingredient =
     res_bind (py_get ingredient ''amount'' (JStr [])) (\<lambda>amount.
     res_bind (py_get ingredient ''unit'' (JStr [])) (\<lambda>unit.
     Inr (str_of w amount @ '' '' @ str_of w unit)))"

definition product_match :: "json \<Rightarrow> string \<Rightarrow> string \<Rightarrow> string \<Rightarrow> string \<Rightarrow> json" where
  "product_match ingredient nm url price qty =
     JObj [(''ingredient'', ingredient),
           (''product'', JObj [(''name'', JStr nm), (''url'', JStr url),
                               (''price'', JStr price), (''quantity_needed'', JStr qty)])]"

definition search_query :: "world \<Rightarrow> string \<Rightarrow> json \<Rightarrow> json" where
  "search_query w category name =
     (if category = ''produce'' then JStr (''fresh '' @ str_of w name)
      else if category = ''dairy'' then JStr (''dairy '' @ str_of w name)
      else if category = ''meat'' then JStr (''fresh '' @ str_of w name)
      else if category = ''spices'' then JStr (str_of w name @ '' spice'')
      else name)"

text \<open>The \<^verbatim>\<open>try\<close> block of \<^verbatim>\<open>search_walmart_product\<close> (lines 227 to 309). The page shown
  is the one the world has for this search, counted from 0.\<close>

definition search_try :: "world \<Rightarrow> json \<Rightarrow> json io" where
  "search_try w ingredient =
     io_bind (io_lift (py_get ingredient ''category'' (JStr []))) (\<lambda>c.
     io_bind (io_lift (py_lower c)) (\<lambda>category.
     io_bind (io_lift (py_get ingredient ''name'' (JStr []))) (\<lambda>name.
     io_bind (io_lift (py_get ingredient ''notes'' (JStr []))) (\<lambda>notes.
     io_bind (io_lift (py_quote w (search_query w category name))) (\<lambda>encoded_query.
     (\<lambda>s.
        (let url = ''https://www.walmart.com/search?q='' @ encoded_query;
             pg = pages w (searches s);
             s1 = s\<lparr>searches := Suc (searches s), log := log s @ [EvNavigate url]\<rparr>
         in case navigate pg url of
              Some e \<Rightarrow> (Inl e, s1)
            | None \<Rightarrow>
                (case container pg of
                   Some e \<Rightarrow> (Inl e, s1)
                 | None \<Rightarrow>
                     (let product_name = name_loop pg ingredient name_selectors None;
                          product_url = find_url pg;
                          price = price_loop pg price_selectors None
                      in case quantity_needed w ingredient of
                           Inl e \<Rightarrow> (Inl e, s1)
                         | Inr qty \<Rightarrow>
                             (Inr (product_match ingredient
                                     (or_else product_name ''Name not found'')
                                     (or_else product_url ''URL not found'')
                                     (or_else price ''Price not found'')
                                     qty), s1))))))))))"

text \<open>The \<^verbatim>\<open>except Exception\<close> clause (lines 311 to 321): \<^verbatim>\<open>ingredient.get\<close> is called
  again, in the message printed and in \<^verbatim>\<open>quantity_needed\<close>.\<close>

definition search_except :: "world \<Rightarrow> json \<Rightarrow> json io" where
  "search_except w ingredient =
     io_bind (io_lift (py_get ingredient ''name'' (JStr ''Unknown''))) (\<lambda>_.
     io_bind (io_lift (quantity_needed w ingredient)) (\<lambda>qty.
     io_ret (product_match ingredient ''Search failed'' ''URL not found''
               ''Price not found'' qty)))"

text \<open>\<^verbatim>\<open>search_walmart_product\<close> (lines 223 to 321): \<^verbatim>\<open>_ensure_browser\<close> is called
  before the \<^verbatim>\<open>try\<close>.\<close>

definition search_walmart_product :: "world \<Rightarrow> json \<Rightarrow> json io" where
  "search_walmart_product w ingredient =
     io_bind (emit (EvSearch ingredient)) (\<lambda>_.
     io_bind (ensure_browser w) (\<lambda>_.
     io_catch (search_try w ingredient) (\<lambda>e. search_except w ingredient)))"

section \<open>\<^verbatim>\<open>main.py\<close>: the orchestrator \<^verbatim>\<open>process_recipe_url\<close>\<close>

fun py_len :: "json \<Rightarrow> exn + nat" where
  "py_len (JArr xs) = Inr (length xs)"
| "py_len (JObj kvs) = Inr (length kvs)"
| "py_len (JStr s) = Inr (length s)"
| "py_len v =
     Inl (Exn OtherException (''object of type '' @ [CHR 0x27] @ py_type_name v @ [CHR 0x27]
            @ '' has no len()''))"

fun py_items :: "json \<Rightarrow> exn + (string \<times> json) list" where
  "py_items (JObj kvs) = Inr kvs"
| "py_items v = Inl (attribute_error v ''items'')"

text \<open>\<^verbatim>\<open>d[key]\<close> with a str key: KeyError on a dict without the key, TypeError on any
  other value.\<close>

fun py_subscript :: "json \<Rightarrow> string \<Rightarrow> exn + json" where
  "py_subscript (JObj kvs) k =
     (case map_of kvs k of
        Some v \<Rightarrow> Inr v
      | None \<Rightarrow> Inl (Exn OtherException ([CHR 0x27] @ k @ [CHR 0x27])))"
| "py_subscript v k =
     Inl (Exn OtherException (''TypeError: '' @ py_type_name v @ '' subscripted with a str''))"

text \<open>\<^verbatim>\<open>f"{v:.2f}"\<close>: a number is formatted, any other value raises. The digits are not
  modelled.\<close>

fun py_format_2f :: "json \<Rightarrow> exn + unit" where
  "py_format_2f (JInt i) = Inr ()"
| "py_format_2f (JFloat f) = Inr ()"
| "py_format_2f (JBool b) = Inr ()"
| "py_format_2f (JStr s) =
     Inl (Exn OtherException
            (''Unknown format code '' @ [CHR 0x27] @ ''f'' @ [CHR 0x27]
               @ '' for object of type '' @ [CHR 0x27] @ ''str'' @ [CHR 0x27]))"
| "py_format_2f v =
     Inl (Exn OtherException
            (''unsupported format string passed to '' @ py_type_name v @ ''.__format__''))"

text \<open>Truth of a value in an \<^verbatim>\<open>if\<close>; whether a float is zero is asked of the world.\<close>

fun py_truthy :: "world \<Rightarrow> json \<Rightarrow> bool" where
  "py_truthy w JNull = False"
| "py_truthy w (JBool b) = b"
| "py_truthy w (JInt i) = (i \<noteq> 0)"
| "py_truthy w (JFloat f) = (\<not> float_is_zero w f)"
| "py_truthy w (JStr s) = (s \<noteq> [])"
| "py_truthy w (JArr xs) = (xs \<noteq> [])"
| "py_truthy w (JObj kvs) = (kvs \<noteq> [])"

text \<open>\<^verbatim>\<open>extract_recipe_text\<close> of \<^verbatim>\<open>main.py\<close> (lines 46 to 56): no timeout and no
  \<^verbatim>\<open>raise_for_status\<close>.\<close>

definition extract_recipe_text_main :: "world \<Rightarrow> string \<Rightarrow> string io" where
  "extract_recipe_text_main w url =
     io_bind (emit (EvFetch url)) (\<lambda>_.
     io_bind (io_lift (http_get w url)) (\<lambda>resp.
     io_lift (soup_text_main w (body resp))))"

text \<open>\<^verbatim>\<open>_call_claude\<close> (lines 58 to 82).\<close>

definition call_claude_main :: "world \<Rightarrow> prompt \<Rightarrow> json io" where
  "call_claude_main w p =
     io_bind (emit (EvModel p)) (\<lambda>_.
     io_bind (io_lift (model_reply w p)) (\<lambda>raw.
     io_bind (io_lift (clean_main raw)) (\<lambda>cleaned.
     io_lift (json_loads w cleaned))))"

text \<open>\<^verbatim>\<open>parse_recipe_with_claude\<close> (lines 84 to 114): any exception becomes the fixed
  dict of line 114.\<close>

definition parse_fallback :: json where
  "parse_fallback = JObj [(''ingredients'', JArr []), (''servings'', JInt 0)]"

definition parse_recipe_with_claude :: "world \<Rightarrow> string \<Rightarrow> json io" where
  "parse_recipe_with_claude w recipe_text =
     io_catch (call_claude_main w (ParsePromptMain recipe_text)) (\<lambda>e. io_ret parse_fallback)"

text \<open>\<^verbatim>\<open>scale_recipe\<close> (lines 196 to 221): the reply is returned as it is decoded.\<close>

definition scale_recipe :: "world \<Rightarrow> int \<Rightarrow> json \<Rightarrow> json io" where
  "scale_recipe w servings_needed recipe_data =
     call_claude_main w (ScalePromptMain servings_needed recipe_data)"

text \<open>What the \<^verbatim>\<open>print\<close> calls of lines 153 and 158 to 170 evaluate. Nothing is caught
  there.\<close>

definition report_found :: "json \<Rightarrow> exn + unit" where
  "report_found ingredients =
     res_bind (py_get ingredients ''ingredients'' (JArr [])) (\<lambda>xs.
     res_bind (py_len xs) (\<lambda>_. Inr ()))"

definition report_scaled :: "json \<Rightarrow> exn + unit" where
  "report_scaled scaled_data =
     res_bind (py_get scaled_data ''shopping_list'' (JArr [])) (\<lambda>sl.
     res_bind (py_iter sl) (\<lambda>_.
     res_bind (py_get scaled_data ''storage_tips'' (JObj [])) (\<lambda>tips.
     res_bind (py_items tips) (\<lambda>_.
     res_bind (py_get scaled_data ''estimated_cost'' (JInt 0)) (\<lambda>cost.
     py_format_2f cost)))))"

text \<open>Lines 140 to 170: the pair \<open>(scaled_data, recipe_text)\<close>, from the file in debug mode
  and from the three stages otherwise.\<close>

definition load_or_compute :: "world \<Rightarrow> int \<Rightarrow> bool \<Rightarrow> string \<Rightarrow> (json \<times> json) io" where
  "load_or_compute w servings_needed debug_walmart_search recipe_url =
     (if debug_walmart_search then
        io_bind (io_lift (shopping_list_file w)) (\<lambda>content.
        io_bind (io_lift (json_loads w content)) (\<lambda>data.
        io_bind (io_lift (py_subscript data ''scaled_recipe'')) (\<lambda>scaled_data.
        io_bind (io_lift (py_subscript data ''original_recipe'')) (\<lambda>recipe_text.
        io_ret (scaled_data, recipe_text)))))
      else
        io_bind (extract_recipe_text_main w recipe_url) (\<lambda>recipe_text.
        io_bind (parse_recipe_with_claude w recipe_text) (\<lambda>ingredients.
        io_bind (io_lift (report_found ingredients)) (\<lambda>_.
        io_bind (scale_recipe w servings_needed ingredients) (\<lambda>scaled_data.
        io_bind (io_lift (report_scaled scaled_data)) (\<lambda>_.
        io_ret (scaled_data, JStr recipe_text)))))))"

text \<open>The loop of lines 183 to 187: \<^verbatim>\<open>ingredient.get\<close> in the message printed, the
  search, the append.\<close>

fun match_loop :: "world \<Rightarrow> json list \<Rightarrow> json list \<Rightarrow> json list io" where
  "match_loop w [] acc = io_ret acc"
| "match_loop w (ingredient # rest) acc =
     io_bind (io_lift (py_get ingredient ''name'' (JStr ''Unknown''))) (\<lambda>_.
     io_bind (search_walmart_product w ingredient) (\<lambda>search_result.
     match_loop w rest (acc @ [search_result])))"

text \<open>The matching phase (lines 179 to 187), entered when \<^verbatim>\<open>search_walmart\<close> is true.\<close>

definition matching_phase :: "world \<Rightarrow> json \<Rightarrow> json list io" where
  "matching_phase w scaled_data =
     io_bind (ensure_browser w) (\<lambda>_.
     io_bind (io_lift (py_get scaled_data ''scaled_ingredients'' (JArr []))) (\<lambda>ings.
     io_bind (io_lift (py_iter ings)) (\<lambda>items.
     match_loop w items [])))"

definition url_result :: "string \<Rightarrow> json \<Rightarrow> json \<Rightarrow> json list \<Rightarrow> json" where
  "url_result recipe_url recipe_text scaled_data products =
     JObj [(''recipe_url'', JStr recipe_url),
           (''original_recipe'', recipe_text),
           (''scaled_recipe'', scaled_data),
           (''walmart_products'', JArr products)]"

text \<open>\<^verbatim>\<open>process_recipe_url\<close> (lines 138 to 189), for an assistant with the given
  \<^verbatim>\<open>servings_needed\<close> and \<^verbatim>\<open>debug_walmart_search\<close>.\<close>

definition process_recipe_url :: "world \<Rightarrow> int \<Rightarrow> bool \<Rightarrow> string \<Rightarrow> bool \<Rightarrow> json io" where
  "process_recipe_url w servings_needed debug_walmart_search recipe_url search_walmart =
     io_bind (load_or_compute w servings_needed debug_walmart_search recipe_url) (\<lambda>p.
       if search_walmart then
         io_bind (matching_phase w (fst p)) (\<lambda>products.
         io_ret (url_result recipe_url (snd p) (fst p) products))
       else io_ret (url_result recipe_url (snd p) (fst p) []))"

section \<open>\<^verbatim>\<open>recipe_cli.py\<close>: the command line\<close>

text \<open>\<^verbatim>\<open>str.isdigit\<close> holds for the ASCII digits and, below code point 256, for the
  superscripts 0xB2, 0xB3 and 0xB9, which \<^verbatim>\<open>int\<close> refuses with ValueError. \<^verbatim>\<open>int\<close> also
  refuses more than 4300 digits.\<close>

definition py_isdigit_char :: "char \<Rightarrow> bool" where
  "py_isdigit_char c =
     (let n = (of_char c :: nat) in (48 \<le> n \<and> n \<le> 57) \<or> n = 178 \<or> n = 179 \<or> n = 185)"

definition py_isdigit :: "string \<Rightarrow> bool" where
  "py_isdigit s = (s \<noteq> [] \<and> list_all py_isdigit_char s)"

definition py_int :: "string \<Rightarrow> exn + int" where
  "py_int s =
     (if list_all is_digit s \<and> length s \<le> 4300 then Inr (int (nat_of_digits s))
      else Inl (Exn OtherException ''invalid literal for int()''))"

text \<open>The calls of \<^verbatim>\<open>format_for_chat\<close> (lines 133 to 163) that can raise; the text it
  builds is not modelled.\<close>

fun chat_items :: "world \<Rightarrow> json list \<Rightarrow> exn + unit" where
  "chat_items w [] = Inr ()"
| "chat_items w (item # items) =
     res_bind (py_get item ''name'' (JStr ''Unknown'')) (\<lambda>_.
     res_bind (py_get item ''estimated_price'' (JInt 0)) (\<lambda>price.
     res_bind (if py_truthy w price then py_format_2f price else Inr ()) (\<lambda>_.
     chat_items w items)))"

definition format_for_chat :: "world \<Rightarrow> json \<Rightarrow> exn + unit" where
  "format_for_chat w result =
     res_bind (py_get result ''success'' JNull) (\<lambda>ok.
       if \<not> py_truthy w ok then Inr ()
       else
         res_bind (py_subscript result ''recipe_name'') (\<lambda>_.
         res_bind (py_subscript result ''scaled_servings'') (\<lambda>_.
         res_bind (py_get result ''shopping_list'' (JArr [])) (\<lambda>sl.
         res_bind (py_iter sl) (\<lambda>items.
         res_bind (chat_items w items) (\<lambda>_.
         res_bind (py_get result ''estimated_cost'' (JInt 0)) (\<lambda>cost.
         res_bind (py_format_2f cost) (\<lambda>_.
         res_bind (py_get result ''storage_tips'' JNull) (\<lambda>tips.
           if py_truthy w tips then
             res_bind (py_subscript result ''storage_tips'') (\<lambda>t.
             res_bind (py_items t) (\<lambda>_. Inr ()))
           else Inr ())))))))))"

text \<open>How the process ends: \<^verbatim>\<open>sys.exit(n)\<close>, the end of \<^verbatim>\<open>main\<close>, or an exception that
  nothing catches, which the interpreter turns into exit status 1.\<close>

datatype outcome = Exit int | Finished | Crashed exn

fun exit_code :: "outcome \<Rightarrow> int" where
  "exit_code (Exit n) = n"
| "exit_code Finished = 0"
| "exit_code (Crashed e) = 1"

text \<open>\<^verbatim>\<open>main\<close> (lines 166 to 187), on \<^verbatim>\<open>sys.argv\<close>.\<close>

definition main :: "world \<Rightarrow> string list \<Rightarrow> pstate \<Rightarrow> outcome \<times> pstate" where
  "main w argv s =
     (if length argv < 2 \<or> argv ! 1 \<in> set [''-h'', ''--help''] then
        (Exit (if ''--help'' \<in> set argv then 0 else 1), s)
      else
        (case (if length argv > 2 \<and> py_isdigit (argv ! 2) then py_int (argv ! 2) else Inr 7) of
           Inl e \<Rightarrow> (Crashed e, s)
         | Inr servings \<Rightarrow>
             (case process_recipe w (argv ! 1) servings s of
                (Inl e, s1) \<Rightarrow> (Crashed e, s1)
              | (Inr result, s1) \<Rightarrow>
                  if ''--chat'' \<in> set argv then
                    (case format_for_chat w result of
                       Inl e \<Rightarrow> (Crashed e, s1)
                     | Inr u \<Rightarrow> (Finished, s1))
                  else (Finished, s1))))"

section \<open>Notions of the specification\<close>

text \<open>The wrappings of a payload \<open>s\<close> that a reply may come in: bare, behind a leading
  fence line with a language tag (possibly empty), and between that line and a trailing
  fence, with \<open>gap\<close> between the payload and the trailing fence and \<open>tail\<close> after it.\<close>

definition wrap_leading :: "string \<Rightarrow> string \<Rightarrow> string" where
  "wrap_leading tag s = fence @ tag @ [NL] @ s"

definition wrap_both :: "string \<Rightarrow> string \<Rightarrow> string \<Rightarrow> string \<Rightarrow> string" where
  "wrap_both tag s gap tail = fence @ tag @ [NL] @ s @ gap @ fence @ tail"






section \<open>Notions of the proofs about the decoder\<close>

text \<open>
  A number ends where no digit, point or exponent mark follows: \<open>follow\<close> holds of the
  texts that may come after a value without changing how the value is read.
  \<open>number_value\<close> is the value that \<open>scan_number\<close> builds from the parts of a number.
\<close>

definition follow :: "string \<Rightarrow> bool" where
  "follow r = (case r of [] \<Rightarrow> True
               | c # _ \<Rightarrow> \<not> is_digit c \<and> c \<noteq> CHR ''.'' \<and> c \<noteq> CHR ''e'' \<and> c \<noteq> CHR ''E'')"

definition number_value :: "bool \<Rightarrow> string \<Rightarrow> string \<Rightarrow> string \<Rightarrow> json" where
  "number_value neg ip fp ep =
     (if fp = [] \<and> ep = []
      then JInt (if neg then - int (nat_of_digits ip) else int (nat_of_digits ip))
      else JFloat ((if neg then ''-'' else []) @ ip @ fp @ ep))"

text \<open>
  With fuel \<open>n\<close>, a value, the rest of an array and the rest of an object are read
  locally: what is read is a part \<open>a\<close> at the front of the text, and it is read the same
  way in front of any other text.
\<close>

definition value_local :: "nat \<Rightarrow> bool" where
  "value_local n = (\<forall>cs v r. parse_value n cs = Some (v, r) \<longrightarrow>
      (\<exists>a. cs = a @ r \<and> a \<noteq> [] \<and> \<not> py_isspace (last a)
          \<and> (\<forall>x. follow x \<longrightarrow> parse_value n (a @ x) = Some (v, x))))"

definition elems_local :: "nat \<Rightarrow> bool" where
  "elems_local n = (\<forall>cs acc v r. parse_elems n cs acc = Some (v, r) \<longrightarrow>
      (\<exists>a. cs = a @ r \<and> a \<noteq> [] \<and> last a = CHR '']''
          \<and> (\<forall>x. parse_elems n (a @ x) acc = Some (v, x))))"

definition members_local :: "nat \<Rightarrow> bool" where
  "members_local n = (\<forall>cs acc v r. parse_members n cs acc = Some (v, r) \<longrightarrow>
      (\<exists>a. cs = a @ r \<and> a \<noteq> [] \<and> last a = CHR ''}''
          \<and> (\<forall>x. parse_members n (a @ x) acc = Some (v, x))))"

section \<open>Concrete worlds\<close>

text \<open>The runs evaluated below use these collaborators: a server that answers every URL
  with the given status, a model that answers the parse prompt and the scale prompt with
  the two given texts, the decoder \<open>loads\<close>, and a browser that shows the given page.\<close>

fun demo_str :: "json \<Rightarrow> string" where
  "demo_str (JStr t) = t"
| "demo_str (JInt i) = (if i < 0 then ''-'' @ show_nat (nat (- i)) else show_nat (nat i))"
| "demo_str JNull = ''None''"
| "demo_str (JBool b) = (if b then ''True'' else ''False'')"
| "demo_str (JFloat f) = f"
| "demo_str (JArr xs) = ''[...]''"
| "demo_str (JObj kvs) = ''{...}''"

definition demo_quote :: "string \<Rightarrow> string" where
  "demo_quote t = concat (map (\<lambda>c. if c = CHR '' '' then ''%20'' else [c]) t)"

definition demo_reply :: "string \<Rightarrow> string \<Rightarrow> prompt \<Rightarrow> exn + string" where
  "demo_reply parse_reply scale_reply p =
     (case p of
        ParsePromptCli t \<Rightarrow> Inr parse_reply
      | ScalePromptCli shown n parsed \<Rightarrow> Inr scale_reply
      | ParsePromptMain t \<Rightarrow> Inr parse_reply
      | ScalePromptMain n parsed \<Rightarrow> Inr scale_reply)"

definition garlic_page :: page where
  "garlic_page =
     \<lparr>navigate = (\<lambda>u. None),
      container = None,
      find_text = (\<lambda>sel. if sel = ''span.normal'' then Inr ''Fresh Garlic Cloves 3ct''
                         else if sel = ''span.price'' then Inr ''$1.98''
                         else Inl (Exn OtherException ''no such element'')),
      ip_link_href = Inr (Some ''https://www.walmart.com/ip/garlic/123''),
      anchor_hrefs = Inr []\<rparr>"


definition demo_world ::
  "string option \<Rightarrow> nat \<Rightarrow> string \<Rightarrow> string \<Rightarrow> exn option \<Rightarrow> (nat \<Rightarrow> page) \<Rightarrow> world" where
  "demo_world key status parse_reply scale_reply launch shown =
     \<lparr>api_key = key,
      http_get = (\<lambda>u. Inr \<lparr>status_code = status, reason = ''Reason'', resp_url = u,
                            body = ''<p>Soup: 2 cups water</p>''\<rparr>),
      soup_text_cli = (\<lambda>h. Inr ''Soup: 2 cups water''),
      soup_text_main = (\<lambda>h. Inr ''Soup: 2 cups water''),
      model_reply = demo_reply parse_reply scale_reply,
      json_loads = loads,
      str_of = demo_str,
      url_quote = demo_quote,
      chrome_start = launch,
      maximize_window = None,
      pages = shown,
      shopping_list_file = Inl (Exn OtherException ''No such file or directory''),
      float_is_zero = (\<lambda>f. False)\<rparr>"

definition offline_world :: world where
  "offline_world =
     (demo_world (Some ''sk-key'') 200 [] [] None (\<lambda>n. garlic_page))
       \<lparr>http_get := (\<lambda>u. Inl (Exn RequestException ''Connection refused''))\<rparr>"

section \<open>\<^verbatim>\<open>process_recipe\<close> of \<^verbatim>\<open>recipe_cli.py\<close>\<close>

subsection \<open>Effects and the shape of a result\<close>

lemma io_bind_Inr_elim:
  assumes "io_bind m f s = (Inr y, s2)"
  obtains x s1 where "m s = (Inr x, s1)" and "f x s1 = (Inr y, s2)"
  using assms by (auto simp: io_bind_def split: prod.splits sum.splits)

lemma io_ret_eq: "io_ret x s = (r, s1) \<longleftrightarrow> r = Inr x \<and> s1 = s"
  by (auto simp: io_ret_def)

lemma process_recipe_try_shape:
  assumes "process_recipe_try w url n s = (Inr r, s1)"
  shows "\<exists>nm os sl ec st.
           r = JObj [(''success'', JBool True), (''url'', JStr url), (''recipe_name'', nm),
                     (''original_servings'', os), (''scaled_servings'', JInt n),
                     (''shopping_list'', sl), (''estimated_cost'', ec), (''storage_tips'', st)]"
  using assms unfolding process_recipe_try_def
  by (elim io_bind_Inr_elim) (auto simp: io_ret_eq)

lemma process_recipe_cases:
  "(api_key w = None \<or> api_key w = Some [])
     \<and> process_recipe w url n s = (Inr (failure ''ANTHROPIC_API_KEY not set''), s)
   \<or> (\<exists>r s1. process_recipe_try w url n s = (Inr r, s1)
          \<and> process_recipe w url n s = (Inr r, s1))
   \<or> (\<exists>e s1. process_recipe_try w url n s = (Inl e, s1)
          \<and> process_recipe w url n s = (Inr (process_recipe_except e), s1))"
  by (auto simp: process_recipe_def io_ret_def io_catch_def
           split: option.splits sum.splits prod.splits)

lemma except_is_failure: "\<exists>m. process_recipe_except e = failure m"
  by (cases e rule: process_recipe_except.cases) auto

lemma process_recipe_with_key:
  assumes "api_key w = Some k" and "k \<noteq> []"
  shows "process_recipe w url n s =
           (case process_recipe_try w url n s of
              (Inl e, s1) \<Rightarrow> (Inr (process_recipe_except e), s1)
            | (Inr r, s1) \<Rightarrow> (Inr r, s1))"
  using assms by (simp add: process_recipe_def io_catch_def io_ret_def)

text \<open>
  C10. When \<^verbatim>\<open>ANTHROPIC_API_KEY\<close> is unset, \<^verbatim>\<open>process_recipe\<close> returns
  \<^verbatim>\<open>{"success": false, "error": "ANTHROPIC_API_KEY not set"}\<close> for every URL and serving
  count, and the state is the one it started from: its log has no fetch and no model
  call.
\<close>

theorem api_key_unset_short_circuits:
  assumes "api_key w = None"
  shows "process_recipe w url n s =
           (Inr (JObj [(''success'', JBool False),
                       (''error'', JStr ''ANTHROPIC_API_KEY not set'')]), s)"
  using assms by (simp add: process_recipe_def io_ret_def failure_def)

theorem api_key_unset_short_circuits_witness:
  "process_recipe (demo_world None 200 [] [] None (\<lambda>n. garlic_page))
       ''https://example.com/soup'' 7 fresh =
     (Inr (JObj [(''success'', JBool False),
                 (''error'', JStr ''ANTHROPIC_API_KEY not set'')]),
      \<lparr>driver = False, searches = 0, log = []\<rparr>)"
  using api_key_unset_short_circuits
          [of "demo_world None 200 [] [] None (\<lambda>n. garlic_page)"
              "''https://example.com/soup''" 7 fresh]
  by (simp add: demo_world_def fresh_def)

lemma process_recipe_try_stages:
  assumes "extract_recipe_text w url s = (Inr recipe_text, s1)"
    and "call_claude w (ParsePromptCli (take 6000 recipe_text)) s1 = (Inr (JObj pk), s2)"
    and "shown = (case map_of pk ''original_servings'' of None \<Rightarrow> JInt 4 | Some v \<Rightarrow> v)"
    and "call_claude w (ScalePromptCli shown n (JObj pk)) s2 = (Inr (JObj sk), s3)"
  shows "\<exists>nm sl ec st.
           process_recipe_try w url n s =
             (Inr (JObj [(''success'', JBool True), (''url'', JStr url), (''recipe_name'', nm),
                         (''original_servings'', shown), (''scaled_servings'', JInt n),
                         (''shopping_list'', sl), (''estimated_cost'', ec),
                         (''storage_tips'', st)]), s3)"
  unfolding process_recipe_try_def
  using assms by (simp add: io_bind_def io_lift_def io_ret_def)

text \<open>
  C1. The result of \<^verbatim>\<open>recipe_cli.process_recipe\<close> carries the serving count the caller
  passed, in every world: whatever text the model answers and whatever the decoder makes
  of it. Every successful result has \<^verbatim>\<open>scaled_servings\<close> equal to the caller's \<open>n\<close>; and
  when extraction returns, the parse call returns a dict and the scale call returns a
  dict, whatever that dict holds, the result is successful and its \<^verbatim>\<open>scaled_servings\<close> is
  \<open>n\<close>. In the run of the witness the model echoes 99 and the result says 7.
\<close>

theorem scaled_servings_is_target:
  "(fst (process_recipe w url n s) = Inr r \<and> json_field r ''success'' = Some (JBool True)
      \<longrightarrow> json_field r ''scaled_servings'' = Some (JInt n))
   \<and> (api_key w = Some k \<and> k \<noteq> []
        \<and> extract_recipe_text w url s = (Inr recipe_text, s1)
        \<and> call_claude w (ParsePromptCli (take 6000 recipe_text)) s1 = (Inr (JObj pk), s2)
        \<and> call_claude w (ScalePromptCli
               (case map_of pk ''original_servings'' of None \<Rightarrow> JInt 4 | Some v \<Rightarrow> v)
               n (JObj pk)) s2 = (Inr (JObj sk), s3)
      \<longrightarrow> (\<exists>q. process_recipe w url n s = (Inr q, s3)
             \<and> json_field q ''success'' = Some (JBool True)
             \<and> json_field q ''scaled_servings'' = Some (JInt n)))"
proof (intro conjI impI)
  assume a: "fst (process_recipe w url n s) = Inr r \<and> json_field r ''success'' = Some (JBool True)"
  from process_recipe_cases [of w url n s] a
  consider (nokey) "r = failure ''ANTHROPIC_API_KEY not set''"
    | (ok) s2 where "process_recipe_try w url n s = (Inr r, s2)"
    | (exc) e where "r = process_recipe_except e"
    by auto
  then show "json_field r ''scaled_servings'' = Some (JInt n)"
  proof cases
    case nokey
    with a show ?thesis by (simp add: failure_def)
  next
    case ok
    from process_recipe_try_shape [OF ok] show ?thesis by auto
  next
    case exc
    with except_is_failure [of e] a show ?thesis by (auto simp: failure_def)
  qed
next
  assume b: "api_key w = Some k \<and> k \<noteq> []
        \<and> extract_recipe_text w url s = (Inr recipe_text, s1)
        \<and> call_claude w (ParsePromptCli (take 6000 recipe_text)) s1 = (Inr (JObj pk), s2)
        \<and> call_claude w (ScalePromptCli
               (case map_of pk ''original_servings'' of None \<Rightarrow> JInt 4 | Some v \<Rightarrow> v)
               n (JObj pk)) s2 = (Inr (JObj sk), s3)"
  then have key: "api_key w = Some k" "k \<noteq> []" by simp_all
  from b process_recipe_try_stages [of w url s recipe_text s1 pk s2 _ n sk s3]
  obtain nm sl ec st where
    "process_recipe_try w url n s =
       (Inr (JObj [(''success'', JBool True), (''url'', JStr url), (''recipe_name'', nm),
                   (''original_servings'',
                    case map_of pk ''original_servings'' of None \<Rightarrow> JInt 4 | Some v \<Rightarrow> v),
                   (''scaled_servings'', JInt n),
                   (''shopping_list'', sl), (''estimated_cost'', ec),
                   (''storage_tips'', st)]), s3)"
    by blast
  with process_recipe_with_key [OF key, of url n s]
  show "\<exists>q. process_recipe w url n s = (Inr q, s3)
             \<and> json_field q ''success'' = Some (JBool True)
             \<and> json_field q ''scaled_servings'' = Some (JInt n)"
    by simp
qed

theorem scaled_servings_is_target_witness:
  \<open>\<exists>q. process_recipe
        (demo_world (Some ''sk-key'') 200
           ''{"recipe_name": "Soup", "original_servings": 2, "ingredients": []}''
           ''```json\<newline>{"recipe_name": "Soup", "scaled_servings": 99, "shopping_list": []}\<newline>```''
           None (\<lambda>n. garlic_page))
        ''https://example.com/soup'' 7 fresh
      = (Inr q, \<lparr>driver = False, searches = 0,
                 log = [EvFetch ''https://example.com/soup'',
                        EvModel (ParsePromptCli ''Soup: 2 cups water''),
                        EvModel (ScalePromptCli (JInt 2) 7
                           (JObj [(''recipe_name'', JStr ''Soup''),
                                  (''original_servings'', JInt 2),
                                  (''ingredients'', JArr [])]))]\<rparr>)
     \<and> json_field q ''success'' = Some (JBool True)
     \<and> json_field q ''scaled_servings'' = Some (JInt 7)\<close>
proof -
  let ?w = \<open>demo_world (Some ''sk-key'') 200
           ''{"recipe_name": "Soup", "original_servings": 2, "ingredients": []}''
           ''```json\<newline>{"recipe_name": "Soup", "scaled_servings": 99, "shopping_list": []}\<newline>```''
           None (\<lambda>n. garlic_page)\<close>
  let ?pk = "[(''recipe_name'', JStr ''Soup''), (''original_servings'', JInt 2),
              (''ingredients'', JArr [])]"
  let ?s1 = "\<lparr>driver = False, searches = 0, log = [EvFetch ''https://example.com/soup'']\<rparr>"
  let ?s2 = "\<lparr>driver = False, searches = 0,
               log = [EvFetch ''https://example.com/soup'',
                      EvModel (ParsePromptCli ''Soup: 2 cups water'')]\<rparr>"
  let ?s3 = "\<lparr>driver = False, searches = 0,
               log = [EvFetch ''https://example.com/soup'',
                      EvModel (ParsePromptCli ''Soup: 2 cups water''),
                      EvModel (ScalePromptCli (JInt 2) 7 (JObj ?pk))]\<rparr>"
  have key: "api_key ?w = Some ''sk-key''"
    by (simp add: demo_world_def)
  have ex: "extract_recipe_text ?w ''https://example.com/soup'' fresh
              = (Inr ''Soup: 2 cups water'', ?s1)"
    by code_simp
  have pc: "call_claude ?w (ParsePromptCli (take 6000 ''Soup: 2 cups water'')) ?s1
              = (Inr (JObj ?pk), ?s2)"
    by code_simp
  have sc: \<open>call_claude ?w
              (ScalePromptCli
                 (case map_of ?pk ''original_servings'' of None \<Rightarrow> JInt 4 | Some v \<Rightarrow> v)
                 7 (JObj ?pk)) ?s2
              = (Inr (JObj [(''recipe_name'', JStr ''Soup''), (''scaled_servings'', JInt 99),
                            (''shopping_list'', JArr [])]), ?s3)\<close>
    by code_simp
  from scaled_servings_is_target
         [of ?w "''https://example.com/soup''" 7 fresh _ "''sk-key''" "''Soup: 2 cups water''"
             ?s1 ?pk ?s2
             "[(''recipe_name'', JStr ''Soup''), (''scaled_servings'', JInt 99),
               (''shopping_list'', JArr [])]" ?s3]
    key ex pc sc
  show ?thesis by simp
qed

text \<open>
  C5, for \<^verbatim>\<open>recipe_cli.process_recipe\<close>. In every world and from every state the call
  returns a dict and raises nothing: either \<^verbatim>\<open>success\<close> is true and the dict is the one
  the \<^verbatim>\<open>try\<close> block built, or \<^verbatim>\<open>success\<close> is false with an \<^verbatim>\<open>error\<close> string, and then the
  key was missing or a stage of the \<^verbatim>\<open>try\<close> block (extraction, parsing, scaling) raised.
\<close>

theorem process_recipe_returns_result:
  "\<exists>r s1. process_recipe w url n s = (Inr r, s1)
     \<and> (json_field r ''success'' = Some (JBool True)
           \<and> fst (process_recipe_try w url n s) = Inr r
         \<or> json_field r ''success'' = Some (JBool False)
           \<and> (\<exists>m. json_field r ''error'' = Some (JStr m))
           \<and> (api_key w = None \<or> api_key w = Some []
                \<or> (\<exists>e. fst (process_recipe_try w url n s) = Inl e)))"
proof -
  from process_recipe_cases [of w url n s]
  consider (nokey) "api_key w = None \<or> api_key w = Some []"
      "process_recipe w url n s = (Inr (failure ''ANTHROPIC_API_KEY not set''), s)"
    | (ok) r s2 where "process_recipe_try w url n s = (Inr r, s2)"
        "process_recipe w url n s = (Inr r, s2)"
    | (exc) e s2 where "process_recipe_try w url n s = (Inl e, s2)"
        "process_recipe w url n s = (Inr (process_recipe_except e), s2)"
    by blast
  then show ?thesis
  proof cases
    case nokey
    then show ?thesis by (auto simp: failure_def)
  next
    case ok
    from process_recipe_try_shape [OF ok(1)] ok show ?thesis by auto
  next
    case exc
    from except_is_failure [of e] obtain m where "process_recipe_except e = failure m" ..
    with exc show ?thesis by (auto simp: failure_def)
  qed
qed

text \<open>
  \<^verbatim>\<open>RecipeAssistant.process_recipe_url\<close> has no \<^verbatim>\<open>try\<close> around extraction and scaling:
  when the GET raises, the exception leaves the method.
\<close>

theorem process_recipe_url_raises_counterexample:
  "fst (process_recipe_url offline_world 7 False ''https://example.com/soup'' False fresh)
     = Inl (Exn RequestException ''Connection refused'')"
  by code_simp


theorem process_recipe_returns_result_witness:
  "\<exists>r s1. process_recipe offline_world ''https://example.com/soup'' 7 fresh = (Inr r, s1)
     \<and> (json_field r ''success'' = Some (JBool True)
           \<and> fst (process_recipe_try offline_world ''https://example.com/soup'' 7 fresh) = Inr r
         \<or> json_field r ''success'' = Some (JBool False)
           \<and> (\<exists>m. json_field r ''error'' = Some (JStr m))
           \<and> (api_key offline_world = None \<or> api_key offline_world = Some []
                \<or> (\<exists>e. fst (process_recipe_try offline_world
                               ''https://example.com/soup'' 7 fresh) = Inl e)))"
  by (rule process_recipe_returns_result)

lemma extract_status_error:
  assumes "http_get w url = Inr resp"
    and "400 \<le> status_code resp" and "status_code resp < 600"
  shows "\<exists>msg. extract_recipe_text w url s
           = (Inl (Exn RequestException msg), s\<lparr>log := log s @ [EvFetch url]\<rparr>)"
  using assms
  by (auto simp: extract_recipe_text_def io_bind_def emit_def io_lift_def raise_for_status_def)

text \<open>
  C7, as the code has it. With the API key set, when the GET answers with a status from
  400 to 599 (404 for one), \<^verbatim>\<open>process_recipe\<close> returns \<^verbatim>\<open>success\<close> false with an error that
  starts with \<^verbatim>\<open>Failed to fetch recipe: \<close>, and the only call made is the fetch: the
  model is never called, for parsing or for anything else.
\<close>

theorem fetch_error_status_short_circuits:
  assumes "api_key w = Some k" and "k \<noteq> []"
    and "http_get w url = Inr resp"
    and "400 \<le> status_code resp" and "status_code resp < 600"
  shows "\<exists>err. process_recipe w url n s =
            (Inr (JObj [(''success'', JBool False), (''error'', JStr err)]),
             s\<lparr>log := log s @ [EvFetch url]\<rparr>)
          \<and> prefix ''Failed to fetch recipe: '' err
          \<and> sublist ''Failed to fetch'' err"
proof -
  from extract_status_error [OF assms(3-5)] obtain msg where
    ex: "extract_recipe_text w url s
           = (Inl (Exn RequestException msg), s\<lparr>log := log s @ [EvFetch url]\<rparr>)" ..
  have tr: "process_recipe_try w url n s
           = (Inl (Exn RequestException msg), s\<lparr>log := log s @ [EvFetch url]\<rparr>)"
    unfolding process_recipe_try_def using ex by (simp add: io_bind_def)
  have "sublist ''Failed to fetch'' (''Failed to fetch'' @ '' recipe: '' @ msg)"
    by (rule sublist_append_rightI)
  then have sub: "sublist ''Failed to fetch'' (''Failed to fetch recipe: '' @ msg)"
    by simp
  show ?thesis
    using process_recipe_with_key [OF assms(1,2), of url n s] tr sub
    by (auto simp: failure_def)
qed

theorem fetch_error_status_short_circuits_witness:
  "process_recipe (demo_world (Some ''sk-key'') 404 [] [] None (\<lambda>n. garlic_page))
       ''https://example.com/soup'' 7 fresh =
     (Inr (JObj [(''success'', JBool False),
                 (''error'', JStr ''Failed to fetch recipe: 404 Client Error: Reason for url: https://example.com/soup'')]),
      \<lparr>driver = False, searches = 0, log = [EvFetch ''https://example.com/soup'']\<rparr>)"
proof -
  have run: "process_recipe (demo_world (Some ''sk-key'') 404 [] [] None (\<lambda>n. garlic_page))
       ''https://example.com/soup'' 7 fresh =
     (Inr (JObj [(''success'', JBool False),
                 (''error'', JStr ''Failed to fetch recipe: 404 Client Error: Reason for url: https://example.com/soup'')]),
      \<lparr>driver = False, searches = 0, log = [EvFetch ''https://example.com/soup'']\<rparr>)"
    by code_simp
  show ?thesis
    using fetch_error_status_short_circuits
            [of "demo_world (Some ''sk-key'') 404 [] [] None (\<lambda>n. garlic_page)" "''sk-key''"
                "''https://example.com/soup''"
                "\<lparr>status_code = 404, reason = ''Reason'', resp_url = ''https://example.com/soup'',
                  body = ''<p>Soup: 2 cups water</p>''\<rparr>" 7 fresh] run
    by (simp add: demo_world_def)
qed

text \<open>
  Two runs where the claim as worded fails. Without the key a URL that answers 404 gives
  the key error, and nothing is fetched. With the key, status 304 is not 2xx, yet
  \<^verbatim>\<open>raise_for_status\<close> lets it pass: the page is parsed and the run succeeds.
\<close>

theorem fetch_error_counterexample:
  \<open>process_recipe (demo_world None 404 [] [] None (\<lambda>n. garlic_page))
       ''https://example.com/soup'' 7 fresh =
     (Inr (JObj [(''success'', JBool False), (''error'', JStr ''ANTHROPIC_API_KEY not set'')]),
      \<lparr>driver = False, searches = 0, log = []\<rparr>)
   \<and> process_recipe (demo_world (Some ''sk-key'') 304 ''{"recipe_name": "Soup"}''
                       ''{"shopping_list": []}'' None (\<lambda>n. garlic_page))
       ''https://example.com/soup'' 7 fresh =
     (Inr (JObj [(''success'', JBool True), (''url'', JStr ''https://example.com/soup''),
                 (''recipe_name'', JStr ''Soup''), (''original_servings'', JInt 4),
                 (''scaled_servings'', JInt 7), (''shopping_list'', JArr []),
                 (''estimated_cost'', JInt 0), (''storage_tips'', JObj [])]),
      \<lparr>driver = False, searches = 0,
        log = [EvFetch ''https://example.com/soup'',
               EvModel (ParsePromptCli ''Soup: 2 cups water''),
               EvModel (ScalePromptCli (JInt 4) 7 (JObj [(''recipe_name'', JStr ''Soup'')]))]\<rparr>)\<close>
  by code_simp

lemma call_claude_known:
  assumes "model_reply w p = Inr raw"
  shows "call_claude w p s = (json_loads w (clean_cli raw), s\<lparr>log := log s @ [EvModel p]\<rparr>)"
  using assms by (simp add: call_claude_def io_bind_def emit_def io_lift_def)

lemma extract_known:
  assumes "http_get w url = Inr resp" and "raise_for_status resp = Inr ()"
  shows "extract_recipe_text w url s
           = (soup_text_cli w (body resp), s\<lparr>log := log s @ [EvFetch url]\<rparr>)"
  using assms by (simp add: extract_recipe_text_def io_bind_def emit_def io_lift_def)

lemma call_claude_log:
  "\<exists>r. call_claude w p s = (r, s\<lparr>log := log s @ [EvModel p]\<rparr>)"
  by (auto simp: call_claude_def io_bind_def emit_def io_lift_def split: sum.splits)

text \<open>
  C8, as the code has it. When the parse reply decodes to a dict, the scale stage is
  prompted with that dict unchanged, and the serving count shown to it and reported by a
  successful result is the dict's \<^verbatim>\<open>original_servings\<close>, whatever value that is, or 4
  when the key is missing. The log lists the calls of the run: the fetch, the parse
  prompt, the scale prompt.
\<close>

theorem parsed_recipe_defaults:
  assumes "api_key w = Some k" and "k \<noteq> []"
    and "http_get w url = Inr resp" and "raise_for_status resp = Inr ()"
    and "soup_text_cli w (body resp) = Inr recipe_text"
    and "model_reply w (ParsePromptCli (take 6000 recipe_text)) = Inr raw"
    and "json_loads w (clean_cli raw) = Inr (JObj kvs)"
    and "shown = (case map_of kvs ''original_servings'' of None \<Rightarrow> JInt 4 | Some v \<Rightarrow> v)"
  shows "\<exists>r s1. process_recipe w url n s = (Inr r, s1)
           \<and> log s1 = log s @ [EvFetch url, EvModel (ParsePromptCli (take 6000 recipe_text)),
                                EvModel (ScalePromptCli shown n (JObj kvs))]
           \<and> (json_field r ''success'' = Some (JBool True)
                \<longrightarrow> json_field r ''original_servings'' = Some shown)"
proof -
  let ?s1 = "s\<lparr>log := log s @ [EvFetch url]\<rparr>"
  let ?s2 = "?s1\<lparr>log := log ?s1 @ [EvModel (ParsePromptCli (take 6000 recipe_text))]\<rparr>"
  let ?s3 = "?s2\<lparr>log := log ?s2 @ [EvModel (ScalePromptCli shown n (JObj kvs))]\<rparr>"
  have ex: "extract_recipe_text w url s = (Inr recipe_text, ?s1)"
    using extract_known [OF assms(3,4)] assms(5) by simp
  have pc: "call_claude w (ParsePromptCli (take 6000 recipe_text)) ?s1 = (Inr (JObj kvs), ?s2)"
    using call_claude_known [OF assms(6)] assms(7) by simp
  have get: "py_get (JObj kvs) ''original_servings'' (JInt 4) = Inr shown"
    using assms(8) by simp
  obtain sr where sc: "call_claude w (ScalePromptCli shown n (JObj kvs)) ?s2 = (sr, ?s3)"
    using call_claude_log [of w "ScalePromptCli shown n (JObj kvs)" ?s2] by blast
  show ?thesis
  proof (cases sr)
    case (Inl e)
    have "process_recipe_try w url n s = (Inl e, ?s3)"
      unfolding process_recipe_try_def
      using ex pc get sc Inl by (simp add: io_bind_def io_lift_def)
    with process_recipe_with_key [OF assms(1,2), of url n s] except_is_failure [of e]
    show ?thesis by (auto simp: failure_def)
  next
    case (Inr scaled)
    show ?thesis
    proof (cases "\<exists>skvs. scaled = JObj skvs")
      case True
      then obtain skvs where "scaled = JObj skvs" ..
      then have "\<exists>r. process_recipe_try w url n s = (Inr r, ?s3)
                   \<and> json_field r ''original_servings'' = Some shown"
        unfolding process_recipe_try_def
        using ex pc get sc Inr by (simp add: io_bind_def io_lift_def io_ret_def)
      with process_recipe_with_key [OF assms(1,2), of url n s]
      show ?thesis by auto
    next
      case False
      then have g: "py_get scaled ''recipe_name'' d = Inl (attribute_error scaled ''get'')" for d
        by (cases scaled) auto
      have "process_recipe_try w url n s = (Inl (attribute_error scaled ''get''), ?s3)"
        unfolding process_recipe_try_def
        using ex pc get sc Inr g by (simp add: io_bind_def io_lift_def)
      with process_recipe_with_key [OF assms(1,2), of url n s]
        except_is_failure [of "attribute_error scaled ''get''"]
      show ?thesis by (auto simp: failure_def)
    qed
  qed
qed


theorem parsed_recipe_defaults_witness:
  \<open>\<exists>r s1. process_recipe
        (demo_world (Some ''sk-key'') 200 ''{"recipe_name": "Soup"}''
           ''{"shopping_list": []}'' None (\<lambda>n. garlic_page))
        ''https://example.com/soup'' 7 fresh = (Inr r, s1)
     \<and> log s1 = log fresh @
           [EvFetch ''https://example.com/soup'',
            EvModel (ParsePromptCli (take 6000 ''Soup: 2 cups water'')),
            EvModel (ScalePromptCli (JInt 4) 7 (JObj [(''recipe_name'', JStr ''Soup'')]))]
     \<and> (json_field r ''success'' = Some (JBool True)
          \<longrightarrow> json_field r ''original_servings'' = Some (JInt 4))\<close>
proof -
  let ?w = \<open>demo_world (Some ''sk-key'') 200 ''{"recipe_name": "Soup"}''
              ''{"shopping_list": []}'' None (\<lambda>n. garlic_page)\<close>
  let ?resp = "\<lparr>status_code = 200, reason = ''Reason'', resp_url = ''https://example.com/soup'',
                 body = ''<p>Soup: 2 cups water</p>''\<rparr>"
  have key: "api_key ?w = Some ''sk-key''" and ne: "''sk-key'' \<noteq> []"
    by (simp_all add: demo_world_def)
  have get: "http_get ?w ''https://example.com/soup'' = Inr ?resp"
    by (simp add: demo_world_def)
  have ok: "raise_for_status ?resp = Inr ()"
    by (simp add: raise_for_status_def)
  have soup: "soup_text_cli ?w (body ?resp) = Inr ''Soup: 2 cups water''"
    by (simp add: demo_world_def)
  have reply: \<open>model_reply ?w (ParsePromptCli (take 6000 ''Soup: 2 cups water''))
                 = Inr ''{"recipe_name": "Soup"}''\<close>
    by (simp add: demo_world_def demo_reply_def)
  have dec: \<open>json_loads ?w (clean_cli ''{"recipe_name": "Soup"}'')
               = Inr (JObj [(''recipe_name'', JStr ''Soup'')])\<close>
    by code_simp
  have shown: "JInt 4 = (case map_of [(''recipe_name'', JStr ''Soup'')] ''original_servings'' of
                           None \<Rightarrow> JInt 4 | Some v \<Rightarrow> v)"
    by simp
  show ?thesis
    by (rule parsed_recipe_defaults [OF key ne get ok soup reply dec shown])
qed

text \<open>
  Where the claim as worded fails. In \<^verbatim>\<open>recipe_cli.py\<close> a reply with
  \<^verbatim>\<open>original_servings\<close> 0 and no \<^verbatim>\<open>ingredients\<close> key succeeds with
  \<^verbatim>\<open>original_servings\<close> 0, and the scale prompt carries the dict without an
  \<^verbatim>\<open>ingredients\<close> key. In \<^verbatim>\<open>main.py\<close> a reply that is not JSON makes
  \<^verbatim>\<open>parse_recipe_with_claude\<close> return its fallback, whose \<^verbatim>\<open>servings\<close> is 0.
\<close>

theorem parsed_recipe_defaults_counterexample:
  \<open>process_recipe
      (demo_world (Some ''sk-key'') 200 ''{"recipe_name": "Soup", "original_servings": 0}''
         ''{"shopping_list": []}'' None (\<lambda>n. garlic_page))
      ''https://example.com/soup'' 7 fresh =
     (Inr (JObj [(''success'', JBool True), (''url'', JStr ''https://example.com/soup''),
                 (''recipe_name'', JStr ''Soup''), (''original_servings'', JInt 0),
                 (''scaled_servings'', JInt 7), (''shopping_list'', JArr []),
                 (''estimated_cost'', JInt 0), (''storage_tips'', JObj [])]),
      \<lparr>driver = False, searches = 0,
        log = [EvFetch ''https://example.com/soup'',
               EvModel (ParsePromptCli ''Soup: 2 cups water''),
               EvModel (ScalePromptCli (JInt 0) 7
                          (JObj [(''recipe_name'', JStr ''Soup''),
                                 (''original_servings'', JInt 0)]))]\<rparr>)
   \<and> fst (parse_recipe_with_claude
            (demo_world (Some ''sk-key'') 200 ''not json at all'' [] None (\<lambda>n. garlic_page))
            ''Soup: 2 cups water'' fresh)
       = Inr (JObj [(''ingredients'', JArr []), (''servings'', JInt 0)])\<close>
  by code_simp

section \<open>The validator\<close>












section \<open>The command line\<close>





text \<open>The short help flag: \<^verbatim>\<open>-h\<close> prints the usage and exits 1, since line 171 looks for
  \<^verbatim>\<open>--help\<close> only.\<close>

lemma main_short_help_flag: "exit_code (fst (main offline_world [''recipe_cli.py'', ''-h''] fresh)) = 1"
  by code_simp

section \<open>The product search\<close>














text \<open>A search that finds its product, evaluated.\<close>

lemma search_garlic_run:
  "search_walmart_product (demo_world (Some ''sk-key'') 200 [] [] None (\<lambda>n. garlic_page))
     (JObj [(''name'', JStr ''garlic''), (''category'', JStr ''produce''),
            (''amount'', JInt 3), (''unit'', JStr ''whole'')]) fresh
   = (Inr (JObj
        [(''ingredient'',
          JObj [(''name'', JStr ''garlic''), (''category'', JStr ''produce''),
                (''amount'', JInt 3), (''unit'', JStr ''whole'')]),
         (''product'',
          JObj [(''name'', JStr ''Fresh Garlic Cloves 3ct''),
                (''url'', JStr ''https://www.walmart.com/ip/garlic/123''),
                (''price'', JStr ''$1.98''),
                (''quantity_needed'', JStr ''3 whole'')])]),
      \<lparr>driver = True, searches = 1,
        log = [EvSearch (JObj [(''name'', JStr ''garlic''), (''category'', JStr ''produce''),
                               (''amount'', JInt 3), (''unit'', JStr ''whole'')]),
               EvLaunch,
               EvNavigate ''https://www.walmart.com/search?q=fresh%20garlic'']\<rparr>)"
  by code_simp


section \<open>The matching phase\<close>








section \<open>The response cleaners and the fence\<close>

subsection \<open>Trimming\<close>

lemma backtick_not_space: "\<not> py_isspace (CHR 0x60)"
  by code_simp

lemma NL_space: "py_isspace NL"
  by code_simp

lemma fence_chars: "set fence = {CHR 0x60}"
  by (simp add: fence_def)

lemma fence_unfold: "fence = [CHR 0x60, CHR 0x60, CHR 0x60]"
  by (simp add: fence_def)

lemma NL_not_in_fence: "NL \<notin> set fence"
  by (simp add: fence_def NL_def)

lemma rstrip_append:
  "py_rstrip (a @ b) = (if list_all py_isspace b then py_rstrip a else a @ py_rstrip b)"
  by (simp add: py_rstrip_def dropWhile_append list_all_iff)

lemma rstrip_all_space: "list_all py_isspace g \<Longrightarrow> py_rstrip g = []"
  by (simp add: py_rstrip_def list_all_iff)

lemma lstrip_all_space: "list_all py_isspace g \<Longrightarrow> py_lstrip g = []"
  by (simp add: py_lstrip_def list_all_iff)

lemma lstrip_append:
  "py_lstrip (a @ b) = (if list_all py_isspace a then py_lstrip b else py_lstrip a @ b)"
  by (simp add: py_lstrip_def dropWhile_append list_all_iff)

lemma rstrip_fence: "py_rstrip fence = fence"
  by code_simp

lemma lstrip_fence_front: "py_lstrip (fence @ a) = fence @ a"
  by (simp add: py_lstrip_def fence_unfold backtick_not_space)

lemma fence_not_all_space: "\<not> list_all py_isspace fence"
  by (simp add: fence_unfold backtick_not_space)

lemma strip_append_space:
  assumes "list_all py_isspace g"
  shows "py_strip (s @ g) = py_strip s"
proof (cases "list_all py_isspace s")
  case True
  with assms show ?thesis
    by (simp add: py_strip_def lstrip_append lstrip_all_space)
next
  case False
  with assms show ?thesis
    by (simp add: py_strip_def lstrip_append rstrip_append)
qed

lemma rstrip_split: "\<exists>g. s = py_rstrip s @ g \<and> list_all py_isspace g"
proof -
  have "rev s = takeWhile py_isspace (rev s) @ dropWhile py_isspace (rev s)"
    by simp
  then have "s = rev (dropWhile py_isspace (rev s)) @ rev (takeWhile py_isspace (rev s))"
    by (metis rev_append rev_rev_ident)
  moreover have "list_all py_isspace (rev (takeWhile py_isspace (rev s)))"
    by (auto simp: list_all_iff dest: set_takeWhileD)
  ultimately show ?thesis
    unfolding py_rstrip_def by blast
qed

lemma strip_rstrip: "py_strip (py_rstrip s) = py_strip s"
proof -
  from rstrip_split [of s] obtain g where g: "s = py_rstrip s @ g" "list_all py_isspace g"
    by blast
  from strip_append_space [OF g(2), of "py_rstrip s"] g(1) show ?thesis
    by simp
qed

lemma rstrip_idem: "py_rstrip (py_rstrip s) = py_rstrip s"
  by (simp add: py_rstrip_def)

lemma lstrip_rstrip_lstrip: "py_lstrip (py_rstrip (py_lstrip s)) = py_rstrip (py_lstrip s)"
proof (cases "py_lstrip s")
  case Nil
  have "py_rstrip [] = []" by (simp add: py_rstrip_def)
  moreover have "py_lstrip [] = []" by (simp add: py_lstrip_def)
  ultimately show ?thesis using Nil by simp
next
  case (Cons c t)
  then have c: "\<not> py_isspace c"
    unfolding py_lstrip_def by (metis hd_dropWhile list.sel(1) list.distinct(1))
  have one: "py_rstrip [c] = [c]"
    using c by (simp add: py_rstrip_def)
  have all: "list_all py_isspace t \<Longrightarrow> py_rstrip t = []"
    by (rule rstrip_all_space)
  have "py_rstrip ([c] @ t) = c # py_rstrip t"
    unfolding rstrip_append [of "[c]" t] using one all by simp
  then have "py_rstrip (c # t) = c # py_rstrip t"
    by simp
  with Cons c show ?thesis
    by (simp add: py_lstrip_def)
qed

lemma strip_idem: "py_strip (py_strip s) = py_strip s"
  by (simp add: py_strip_def lstrip_rstrip_lstrip rstrip_idem)

lemma sublist_rstrip: "prefix (py_rstrip s) s"
  using rstrip_split [of s] by (metis prefixI)

lemma sublist_strip: "sublist (py_strip s) s"
proof -
  have "suffix (py_lstrip s) s"
    unfolding py_lstrip_def by (rule suffix_dropWhile)
  moreover have "prefix (py_strip s) (py_lstrip s)"
    unfolding py_strip_def by (rule sublist_rstrip)
  ultimately show ?thesis
    by (meson prefix_imp_sublist suffix_imp_sublist sublist_order.order_trans)
qed

subsection \<open>The first line and the last fence\<close>

lemma drop_first_line_at:
  assumes "NL \<notin> set a"
  shows "drop_first_line (a @ NL # b) = b"
proof -
  from assms have e: "dropWhile (\<lambda>c. c \<noteq> NL) (a @ NL # b) = NL # b"
    by (induction a) auto
  show ?thesis unfolding drop_first_line_def e by simp
qed

lemma drop_first_line_none:
  assumes "NL \<notin> set a"
  shows "drop_first_line a = []"
proof -
  from assms have e: "dropWhile (\<lambda>c. c \<noteq> NL) a = []"
    by (induction a) auto
  show ?thesis unfolding drop_first_line_def e by simp
qed

lemma before_last_absent: "\<not> sublist sep u \<Longrightarrow> before_last sep u = None"
proof (induction u)
  case Nil
  then show ?case by auto
next
  case (Cons c u)
  then have "\<not> sublist sep u" and "\<not> prefix sep (c # u)"
    by (auto simp: sublist_Cons_right)
  with Cons.IH show ?case by simp
qed

lemma fence_not_in_tail:
  assumes "length a < length sep" and "set tail \<inter> set sep = {}"
  shows "\<not> sublist sep (a @ tail)"
proof
  assume "sublist sep (a @ tail)"
  then consider "sublist sep a" | "sublist sep tail"
    | x y where "sep = x @ y" "suffix x a" "prefix y tail"
    by (auto simp: sublist_append)
  then show False
  proof cases
    case 1
    from sublist_length_le [OF this] assms(1) show False by simp
  next
    case 2
    from assms(1) have "sep \<noteq> []" by auto
    then obtain c r where "sep = c # r" by (cases sep) auto
    with 2 have "c \<in> set tail"
      by (metis list.set_intros(1) set_mono_sublist subsetD)
    with \<open>sep = c # r\<close> assms(2) show False by auto
  next
    case 3
    from 3(2) have "length x \<le> length a" by (rule suffix_length_le)
    with assms(1) 3(1) have "y \<noteq> []" by auto
    then obtain c r where y: "y = c # r" by (cases y) auto
    with 3(3) have "c \<in> set tail"
      by (metis list.set_intros(1) set_mono_prefix subsetD)
    moreover from y 3(1) have "c \<in> set sep" by simp
    ultimately show False using assms(2) by auto
  qed
qed

lemma before_last_at_end:
  assumes "sep \<noteq> []" and "set tail \<inter> set sep = {}"
  shows "before_last sep (t @ sep @ tail) = Some t"
proof (induction t)
  case Nil
  from assms(1) obtain c r where sep: "sep = c # r" by (cases sep) auto
  have "\<not> sublist sep (r @ tail)"
    by (rule fence_not_in_tail) (use sep assms(2) in auto)
  then have "before_last sep (r @ tail) = None"
    by (rule before_last_absent)
  then have "before_last sep (c # r @ tail) = Some []"
    using sep by simp
  with sep show ?case by simp
next
  case (Cons c t)
  then show ?case by simp
qed

lemma space_tail_disjoint:
  assumes "list_all py_isspace tail"
  shows "set tail \<inter> set fence = {}"
  using assms backtick_not_space by (auto simp: fence_chars list_all_iff)

lemma rsplit_trailing_fence:
  assumes "list_all py_isspace tail"
  shows "rsplit1_head fence (t @ fence @ tail) = t"
  using before_last_at_end [of fence tail t] space_tail_disjoint [OF assms]
  by (simp add: rsplit1_head_def fence_unfold)

subsection \<open>The three wrappings\<close>

lemma clean_cli_bare:
  assumes "\<not> prefix fence (py_strip s)"
  shows "clean_cli s = py_strip s"
  using assms by (simp add: clean_cli_def Let_def strip_idem)

lemma strip_wrap_both:
  assumes "list_all py_isspace tail"
  shows "py_strip (wrap_both tag s gap tail) = fence @ tag @ NL # s @ gap @ fence"
proof -
  have a: "py_rstrip ((fence @ tag @ NL # s @ gap @ fence) @ tail)
             = py_rstrip (fence @ tag @ NL # s @ gap @ fence)"
    using assms by (simp only: rstrip_append if_True)
  have b: "py_rstrip ((fence @ tag @ NL # s @ gap) @ fence)
             = (fence @ tag @ NL # s @ gap) @ fence"
    by (simp only: rstrip_append fence_not_all_space if_False rstrip_fence)
  from a b have "py_rstrip (fence @ tag @ NL # s @ gap @ fence @ tail)
                   = fence @ tag @ NL # s @ gap @ fence"
    by simp
  then show ?thesis
    by (simp add: py_strip_def wrap_both_def lstrip_fence_front)
qed

lemma clean_cli_both:
  assumes "NL \<notin> set tag" and "list_all py_isspace gap" and "list_all py_isspace tail"
  shows "clean_cli (wrap_both tag s gap tail) = py_strip s"
proof -
  let ?text = "fence @ tag @ NL # s @ gap @ fence"
  have st: "py_strip (wrap_both tag s gap tail) = ?text"
    by (rule strip_wrap_both [OF assms(3)])
  have "drop_first_line ((fence @ tag) @ NL # (s @ gap @ fence)) = s @ gap @ fence"
    by (rule drop_first_line_at) (use assms(1) NL_not_in_fence in simp)
  then have dl: "drop_first_line ?text = s @ gap @ fence"
    by simp
  have sub: "sublist fence (s @ gap @ fence)"
    by (metis append.assoc sublist_append_leftI)
  have "rsplit1_head fence ((s @ gap) @ fence @ []) = s @ gap"
    by (rule rsplit_trailing_fence) simp
  then have rs: "rsplit1_head fence (s @ gap @ fence) = s @ gap"
    by simp
  have p: "prefix fence ?text"
    by simp
  show ?thesis
    unfolding clean_cli_def st Let_def
    by (simp only: p dl sub rs if_True strip_append_space [OF assms(2)])
qed

lemma set_rstrip: "set (py_rstrip t) \<subseteq> set t"
  using sublist_rstrip [of t] by (rule set_mono_prefix)

lemma fence_nonempty: "fence \<noteq> []"
  by (simp add: fence_def)

lemma clean_cli_leading:
  assumes "NL \<notin> set tag" and "\<not> sublist fence s"
  shows "clean_cli (wrap_leading tag s) = py_strip s"
proof (cases "list_all py_isspace s")
  case True
  then have "list_all py_isspace (NL # s)"
    by (simp add: NL_space)
  then have "py_rstrip ((fence @ tag) @ NL # s) = py_rstrip (fence @ tag)"
    by (simp only: rstrip_append if_True)
  also have "\<dots> = fence @ py_rstrip tag"
    by (simp add: rstrip_append rstrip_fence rstrip_all_space)
  finally have st: "py_strip (wrap_leading tag s) = fence @ py_rstrip tag"
    by (simp add: py_strip_def wrap_leading_def lstrip_fence_front)
  have "NL \<notin> set (fence @ py_rstrip tag)"
    using assms(1) NL_not_in_fence set_rstrip [of tag] by auto
  then have dl: "drop_first_line (fence @ py_rstrip tag) = []"
    by (rule drop_first_line_none)
  have e: "py_strip [] = []"
    by (simp add: py_strip_def py_lstrip_def py_rstrip_def)
  from True have "py_strip s = []"
    by (simp add: py_strip_def lstrip_all_space py_rstrip_def)
  then show ?thesis
    unfolding clean_cli_def st by (simp add: Let_def dl e fence_nonempty)
next
  case False
  then have "py_rstrip ((fence @ tag @ [NL]) @ s) = (fence @ tag @ [NL]) @ py_rstrip s"
    by (simp only: rstrip_append if_False)
  then have st: "py_strip (wrap_leading tag s) = fence @ tag @ NL # py_rstrip s"
    by (simp add: py_strip_def wrap_leading_def lstrip_fence_front)
  have "drop_first_line ((fence @ tag) @ NL # py_rstrip s) = py_rstrip s"
    by (rule drop_first_line_at) (use assms(1) NL_not_in_fence in simp)
  then have dl: "drop_first_line (fence @ tag @ NL # py_rstrip s) = py_rstrip s"
    by simp
  have ns: "\<not> sublist fence (py_rstrip s)"
    using assms(2) sublist_rstrip [of s]
    by (meson prefix_imp_sublist sublist_order.order_trans)
  have p: "prefix fence (fence @ tag @ NL # py_rstrip s)"
    by simp
  show ?thesis
    unfolding clean_cli_def st Let_def
    by (simp only: p dl ns if_True if_False strip_rstrip)
qed

lemma clean_main_bare:
  assumes "\<not> prefix fence s"
  shows "clean_main s = Inr (py_strip s)"
  using assms by (simp add: clean_main_def)

lemma clean_main_both:
  assumes "NL \<notin> set tag" and "list_all py_isspace gap" and "list_all py_isspace tail"
  shows "clean_main (wrap_both tag s gap tail) = Inr (py_strip s)"
proof -
  let ?raw = "wrap_both tag s gap tail"
  let ?text1 = "s @ gap @ fence @ tail"
  have p: "prefix fence ?raw"
    by (simp add: wrap_both_def)
  have n: "NL \<in> set ?raw"
    by (simp add: wrap_both_def)
  have "drop_first_line ((fence @ tag) @ NL # ?text1) = ?text1"
    by (rule drop_first_line_at) (use assms(1) NL_not_in_fence in simp)
  then have dl: "drop_first_line ?raw = ?text1"
    by (simp add: wrap_both_def)
  have sub: "sublist fence ?text1"
    by (metis append.assoc sublist_appendI)
  have "rsplit1_head fence ((s @ gap) @ fence @ tail) = s @ gap"
    by (rule rsplit_trailing_fence [OF assms(3)])
  then have rs: "rsplit1_head fence ?text1 = s @ gap"
    by simp
  have tk: "suffix fence ?text1 \<Longrightarrow> take (length ?text1 - 3) ?text1 = s @ gap"
  proof -
    assume sf: "suffix fence ?text1"
    have "tail = []"
    proof (rule ccontr)
      assume "tail \<noteq> []"
      then have "last ?text1 = last tail" by simp
      moreover have "last ?text1 = CHR 0x60"
      proof -
        from sf obtain zs where "?text1 = zs @ fence"
          by (auto simp: suffix_def)
        then have "last ?text1 = last (zs @ fence)"
          by simp
        then show ?thesis
          by (simp add: fence_unfold)
      qed
      ultimately have "CHR 0x60 \<in> set tail"
        using \<open>tail \<noteq> []\<close> by (metis last_in_set)
      with assms(3) backtick_not_space show False
        by (auto simp: list_all_iff)
    qed
    then show ?thesis by (simp add: fence_unfold)
  qed
  show ?thesis
    unfolding clean_main_def
    using p n tk by (simp add: Let_def dl sub rs strip_append_space [OF assms(2)])
qed

lemma clean_main_leading:
  assumes "NL \<notin> set tag" and "\<not> sublist fence s"
  shows "clean_main (wrap_leading tag s) = Inr (py_strip s)"
proof -
  let ?raw = "wrap_leading tag s"
  have p: "prefix fence ?raw"
    by (simp add: wrap_leading_def)
  have n: "NL \<in> set ?raw"
    by (simp add: wrap_leading_def)
  have "drop_first_line ((fence @ tag) @ NL # s) = s"
    by (rule drop_first_line_at) (use assms(1) NL_not_in_fence in simp)
  then have dl: "drop_first_line ?raw = s"
    by (simp add: wrap_leading_def)
  from assms(2) have ns: "\<not> suffix fence s"
    by (meson suffix_imp_sublist)
  show ?thesis
    unfolding clean_main_def using p n ns assms(2) by (simp add: Let_def dl)
qed

subsection \<open>A text that decodes does not start with a fence\<close>

lemma scan_literal_start:
  assumes "scan_literal (c # r) = Some x"
  shows "c \<in> set ''ntf-NI'' \<or> is_digit c"
proof -
  have "scan_number (c # r) = Some y \<Longrightarrow> c = CHR ''-'' \<or> is_digit c" for y
    by (auto simp: scan_number_def scan_int_def is_digit_def Let_def
             split: if_splits list.splits option.splits prod.splits)
  with assms show ?thesis
    by (auto simp: scan_literal_def split: if_splits option.splits)
qed

lemma start_char_plain:
  assumes "c \<in> set ''\"{[ntf-NI'' \<or> is_digit c"
  shows "\<not> py_isspace c \<and> c \<noteq> CHR 0x60"
  using assms by (auto simp: py_isspace_def is_digit_def Let_def)

lemma parse_value_start:
  assumes "parse_value n t = Some x"
  shows "\<exists>c r. t = c # r \<and> \<not> py_isspace c \<and> c \<noteq> CHR 0x60"
proof (cases n)
  case 0
  with assms show ?thesis by simp
next
  case (Suc m)
  with assms obtain c r where t: "t = c # r"
    by (cases t) auto
  have "c \<in> set ''\"{[ntf-NI'' \<or> is_digit c"
  proof (cases "c = CHR 0x22 \<or> c = CHR ''{'' \<or> c = CHR ''[''")
    case True
    then show ?thesis by auto
  next
    case False
    with assms Suc t have "scan_literal (c # r) = Some x"
      by simp
    from scan_literal_start [OF this] show ?thesis by auto
  qed
  from start_char_plain [OF this] t show ?thesis by blast
qed

lemma json_ws_space: "json_ws c \<Longrightarrow> py_isspace c"
  by (auto simp: json_ws_def py_isspace_def)

lemma rstrip_Cons_plain:
  assumes "\<not> py_isspace c"
  shows "py_rstrip (c # t) = c # py_rstrip t"
proof -
  have one: "py_rstrip [c] = [c]"
    using assms by (simp add: py_rstrip_def)
  have "py_rstrip ([c] @ t) = c # py_rstrip t"
    unfolding rstrip_append [of "[c]" t] using one rstrip_all_space [of t] by simp
  then show ?thesis by simp
qed

lemma valid_json_not_fenced:
  assumes "loads s = Inr v"
  shows "\<not> prefix fence s \<and> \<not> prefix fence (py_strip s)"
proof -
  from assms obtain x where "parse_value (fuel s) (skip_ws s) = Some x"
    by (auto simp: loads_def split: option.splits)
  from parse_value_start [OF this] obtain c r where
    sk: "skip_ws s = c # r" and c: "\<not> py_isspace c" "c \<noteq> CHR 0x60"
    by blast
  have s: "s = takeWhile json_ws s @ c # r"
    using sk unfolding skip_ws_def by (metis takeWhile_dropWhile_id)
  have lead: "list_all py_isspace (takeWhile json_ws s)"
    by (auto simp: list_all_iff dest: set_takeWhileD json_ws_space)
  have "py_lstrip (c # r) = c # r"
    using c(1) by (simp add: py_lstrip_def)
  with lead have "py_lstrip (takeWhile json_ws s @ c # r) = c # r"
    by (simp only: lstrip_append if_True)
  with s have "py_lstrip s = c # r"
    by simp
  then have "py_strip s = c # py_rstrip r"
    using c(1) by (simp add: py_strip_def rstrip_Cons_plain)
  then have a: "\<not> prefix fence (py_strip s)"
    using c(2) by (simp add: fence_unfold)
  have "hd s \<noteq> CHR 0x60"
  proof (cases "takeWhile json_ws s")
    case Nil
    with s c(2) show ?thesis by (metis append_Nil list.sel(1))
  next
    case (Cons d ds)
    then have "d \<in> set (takeWhile json_ws s)" by simp
    then have "py_isspace d" using lead by (simp add: list_all_iff)
    with backtick_not_space have "d \<noteq> CHR 0x60" by auto
    moreover from s Cons have "hd s = d" by (metis append_Cons list.sel(1))
    ultimately show ?thesis by simp
  qed
  moreover from s have "s \<noteq> []" by auto
  ultimately have "\<not> prefix fence s"
    by (cases s) (auto simp: fence_unfold)
  with a show ?thesis by blast
qed

subsection \<open>The decoder reads a value locally\<close>

text \<open>Numbers: each part of a number is read up to the first character that cannot continue it.\<close>

lemma span_boundary:
  assumes "list_all P xs" and "ys = [] \<or> \<not> P (hd ys)"
  shows "takeWhile P (xs @ ys) = xs" and "dropWhile P (xs @ ys) = ys"
proof -
  from assms(2) have "takeWhile P ys = []" and "dropWhile P ys = ys"
    by (cases ys; auto)+
  with assms(1) show "takeWhile P (xs @ ys) = xs" and "dropWhile P (xs @ ys) = ys"
    by (induction xs) auto
qed

lemma span_split: "xs = takeWhile P xs @ dropWhile P xs" "list_all P (takeWhile P xs)"
  by (auto simp: list_all_iff dest: set_takeWhileD)

lemma follow_not_digit: "follow r \<Longrightarrow> r = [] \<or> \<not> is_digit (hd r)"
  by (cases r) (auto simp: follow_def)

lemma scan_int_local:
  assumes "scan_int cs = Some (ip, r)"
  shows "cs = ip @ r \<and> ip \<noteq> [] \<and> list_all is_digit ip
         \<and> (\<forall>x. x = [] \<or> \<not> is_digit (hd x) \<longrightarrow> scan_int (ip @ x) = Some (ip, x))"
proof (cases cs)
  case Nil
  with assms show ?thesis by (simp add: scan_int_def)
next
  case (Cons c t)
  show ?thesis
  proof (cases "c = CHR ''0''")
    case True
    with assms Cons show ?thesis
      by (auto simp: scan_int_def is_digit_def)
  next
    case False
    with assms Cons have d: "is_digit c" and ip: "ip = c # takeWhile is_digit t"
      and r: "r = dropWhile is_digit t"
      by (auto simp: scan_int_def split: if_splits)
    have "scan_int (ip @ x) = Some (ip, x)" if "x = [] \<or> \<not> is_digit (hd x)" for x
      using span_boundary [OF span_split(2) [of is_digit t] that] False d ip
      by (simp add: scan_int_def)
    with Cons ip r d show ?thesis
      by (simp add: list_all_iff) (auto dest: set_takeWhileD)
  qed
qed

lemma scan_frac_local:
  assumes "scan_frac cs = (fp, r)"
  shows "cs = fp @ r
         \<and> (fp = [] \<or> hd fp = CHR ''.'' \<and> is_digit (last fp))
         \<and> (\<forall>x. (if fp = [] then x = [] \<or> hd x \<noteq> CHR ''.'' else x = [] \<or> \<not> is_digit (hd x))
               \<longrightarrow> scan_frac (fp @ x) = (fp, x))"
proof (cases cs)
  case Nil
  with assms show ?thesis by (auto simp: scan_frac_def split: list.splits)
next
  case (Cons c t)
  show ?thesis
  proof (cases "c = CHR ''.'' \<and> takeWhile is_digit t \<noteq> []")
    case True
    with assms Cons have fp: "fp = c # takeWhile is_digit t" and r: "r = dropWhile is_digit t"
      by (auto simp: scan_frac_def)
    have l: "is_digit (last (takeWhile is_digit t))"
      using True by (metis last_in_set set_takeWhileD)
    have "scan_frac (fp @ x) = (fp, x)" if "x = [] \<or> \<not> is_digit (hd x)" for x
      using span_boundary [OF span_split(2) [of is_digit t] that] True fp
      by (simp add: scan_frac_def)
    with Cons fp r True l show ?thesis
      by simp
  next
    case False
    with assms Cons have fp: "fp = []" and r: "r = cs"
      by (auto simp: scan_frac_def)
    have "scan_frac x = ([], x)" if "x = [] \<or> hd x \<noteq> CHR ''.''" for x
      using that by (cases x) (auto simp: scan_frac_def)
    with fp r show ?thesis by simp
  qed
qed

lemma scan_exp_local:
  assumes "scan_exp cs = (ep, r)"
  shows "cs = ep @ r
         \<and> (ep = [] \<or> (hd ep = CHR ''e'' \<or> hd ep = CHR ''E'') \<and> is_digit (last ep))
         \<and> (\<forall>x. (if ep = [] then x = [] \<or> hd x \<noteq> CHR ''e'' \<and> hd x \<noteq> CHR ''E''
                   else x = [] \<or> \<not> is_digit (hd x))
               \<longrightarrow> scan_exp (ep @ x) = (ep, x))"
proof -
  have none: "scan_exp x = ([], x)" if "x = [] \<or> hd x \<noteq> CHR ''e'' \<and> hd x \<noteq> CHR ''E''" for x
    using that by (cases x) (auto simp: scan_exp_def)
  show ?thesis
  proof (cases "ep = []")
    case True
    with assms have "r = cs"
      by (auto simp: scan_exp_def Let_def split: list.splits if_splits prod.splits)
    with True none show ?thesis by simp
  next
    case False
    with assms obtain c t where cs: "cs = c # t" and c: "c = CHR ''e'' \<or> c = CHR ''E''"
      by (cases cs) (auto simp: scan_exp_def split: if_splits)
    define sg where "sg = (case t of [] \<Rightarrow> []
                            | d # r0 \<Rightarrow> if d = CHR ''+'' \<or> d = CHR ''-'' then [d] else [])"
    define r1 where "r1 = (case t of [] \<Rightarrow> t
                            | d # r0 \<Rightarrow> if d = CHR ''+'' \<or> d = CHR ''-'' then r0 else t)"
    have t: "t = sg @ r1"
      by (auto simp: sg_def r1_def split: list.splits)
    have sgr: "(case t of [] \<Rightarrow> ([], t)
                | d # r0 \<Rightarrow> if d = CHR ''+'' \<or> d = CHR ''-'' then ([d], r0) else ([], t))
               = (sg, r1)"
      by (auto simp: sg_def r1_def split: list.splits)
    have ex: "scan_exp cs = (if takeWhile is_digit r1 \<noteq> []
                             then (c # sg @ takeWhile is_digit r1, dropWhile is_digit r1)
                             else ([], cs))"
      using c cs sgr by (simp add: scan_exp_def)
    with assms False have tw: "takeWhile is_digit r1 \<noteq> []"
      and ep: "ep = c # sg @ takeWhile is_digit r1" and r: "r = dropWhile is_digit r1"
      by (auto split: if_splits)
    have l: "is_digit (last (takeWhile is_digit r1))"
      using tw by (metis last_in_set set_takeWhileD)
    have hd_r1: "r1 \<noteq> [] \<and> is_digit (hd r1)"
      using tw by (cases r1) (auto split: if_splits)
    have "scan_exp (ep @ x) = (ep, x)" if x: "x = [] \<or> \<not> is_digit (hd x)" for x
    proof -
      let ?tw = "takeWhile is_digit r1"
      from hd_r1 have nosign: "hd ?tw \<noteq> CHR ''+'' \<and> hd ?tw \<noteq> CHR ''-'' \<and> ?tw \<noteq> []"
        using tw by (cases r1) (auto simp: is_digit_def split: if_splits)
      have sp: "takeWhile is_digit (?tw @ x) = ?tw" "dropWhile is_digit (?tw @ x) = x"
        using span_boundary [OF span_split(2) [of is_digit r1] x] by simp_all
      have sg_cases: "sg = [] \<or> sg = [CHR ''+''] \<or> sg = [CHR ''-'']"
        by (auto simp: sg_def split: list.splits)
      obtain d w where twc: "?tw = d # w"
        using nosign by (cases ?tw) auto
      with nosign have d: "d \<noteq> CHR ''+''" "d \<noteq> CHR ''-''" by auto
      have "(case sg @ ?tw @ x of [] \<Rightarrow> ([], sg @ ?tw @ x)
                | d # r0 \<Rightarrow> if d = CHR ''+'' \<or> d = CHR ''-'' then ([d], r0)
                            else ([], sg @ ?tw @ x))
               = (sg, ?tw @ x)"
        using sg_cases twc d by auto
      then show ?thesis
        using c ep sp tw by (simp add: scan_exp_def)
    qed
    moreover have "cs = ep @ r"
      using cs ep r t by simp
    moreover have "last ep = last (takeWhile is_digit r1)"
      using ep tw by simp
    ultimately show ?thesis
      using False ep c l by simp
  qed
qed

lemma not_digit_chars:
  "\<not> is_digit (CHR ''.'')" "\<not> is_digit (CHR ''e'')" "\<not> is_digit (CHR ''E'')"
  "\<not> is_digit (CHR ''-'')"
  by (simp_all add: is_digit_def)

lemma follow_cases:
  assumes "follow x"
  shows "x = [] \<or> \<not> is_digit (hd x)" and "x = [] \<or> hd x \<noteq> CHR ''.''"
    and "x = [] \<or> hd x \<noteq> CHR ''e'' \<and> hd x \<noteq> CHR ''E''"
  using assms by (cases x; simp add: follow_def)+

lemma scan_number_steps:
  assumes "scan_int r0 = Some (ip, r1)" and "scan_frac r1 = (fp, r2)"
    and "scan_exp r2 = (ep, r3)"
  shows "scan_number (CHR ''-'' # r0) = Some (number_value True ip fp ep, r3)"
    and "r0 = c # t \<Longrightarrow> c \<noteq> CHR ''-'' \<Longrightarrow>
           scan_number r0 = Some (number_value False ip fp ep, r3)"
  using assms by (simp_all add: scan_number_def number_value_def)

lemma scan_number_fail:
  assumes "scan_int r0 = None"
  shows "scan_number (CHR ''-'' # r0) = None"
    and "r0 = [] \<or> hd r0 \<noteq> CHR ''-'' \<Longrightarrow> scan_number r0 = None"
  using assms by (cases r0; simp add: scan_number_def)+

lemma scan_number_local:
  assumes "scan_number cs = Some (v, r)"
  shows "\<exists>a. cs = a @ r \<and> a \<noteq> [] \<and> is_digit (last a)
           \<and> (hd a = CHR ''-'' \<or> is_digit (hd a))
           \<and> (\<forall>x. follow x \<longrightarrow> scan_number (a @ x) = Some (v, x))"
proof -
  define neg where "neg = (cs \<noteq> [] \<and> hd cs = CHR ''-'')"
  define r0 where "r0 = (if neg then tl cs else cs)"
  let ?sign = "if neg then ''-'' else []"
  have cs0: "cs = ?sign @ r0"
    by (cases cs) (auto simp: neg_def r0_def)
  have r0hd: "\<not> neg \<Longrightarrow> r0 = [] \<or> hd r0 \<noteq> CHR ''-''"
    by (cases cs) (auto simp: neg_def r0_def)
  obtain ip r1 where si: "scan_int r0 = Some (ip, r1)"
  proof (cases "scan_int r0")
    case None
    from scan_number_fail [OF None] r0hd cs0 have "scan_number cs = None"
      by (cases neg) auto
    with assms show ?thesis by simp
  next
    case (Some p)
    with that show ?thesis by (cases p) auto
  qed
  obtain fp r2 where sf: "scan_frac r1 = (fp, r2)" by (cases "scan_frac r1") auto
  obtain ep r3 where se: "scan_exp r2 = (ep, r3)" by (cases "scan_exp r2") auto
  note il0 = scan_int_local [OF si]
  note fl0 = scan_frac_local [OF sf]
  note el0 = scan_exp_local [OF se]
  from il0 have il: "r0 = ip @ r1" "ip \<noteq> []" "list_all is_digit ip" by blast+
  from il0 have ilx: "\<And>x. x = [] \<or> \<not> is_digit (hd x) \<Longrightarrow> scan_int (ip @ x) = Some (ip, x)"
    by blast
  from fl0 have fl: "r1 = fp @ r2" "fp = [] \<or> hd fp = CHR ''.'' \<and> is_digit (last fp)"
    by blast+
  from fl0 have flx: "\<And>x. (if fp = [] then x = [] \<or> hd x \<noteq> CHR ''.''
                            else x = [] \<or> \<not> is_digit (hd x))
                        \<Longrightarrow> scan_frac (fp @ x) = (fp, x)"
    by blast
  from el0 have el: "r2 = ep @ r3"
      "ep = [] \<or> (hd ep = CHR ''e'' \<or> hd ep = CHR ''E'') \<and> is_digit (last ep)"
    by blast+
  from el0 have elx: "\<And>x. (if ep = [] then x = [] \<or> hd x \<noteq> CHR ''e'' \<and> hd x \<noteq> CHR ''E''
                            else x = [] \<or> \<not> is_digit (hd x))
                        \<Longrightarrow> scan_exp (ep @ x) = (ep, x)"
    by blast
  have ipd: "ip \<noteq> []" "is_digit (hd ip)" "is_digit (last ip)"
    using il(2,3) by (cases ip; auto simp: list_all_iff)+
  have ip_nominus: "hd ip \<noteq> CHR ''-''"
    using ipd(2) not_digit_chars(4) by auto
  have run: "scan_number (?sign @ ip @ y) = Some (number_value neg ip fp' ep', r')"
    if "scan_int (ip @ y) = Some (ip, y1)" "scan_frac y1 = (fp', y2)" "scan_exp y2 = (ep', r')"
    for y y1 y2 fp' ep' r'
  proof (cases neg)
    case True
    with scan_number_steps(1) [OF that] show ?thesis by simp
  next
    case False
    obtain c t where "ip @ y = c # t" "c \<noteq> CHR ''-''"
      using ipd(1) ip_nominus by (cases ip) auto
    with scan_number_steps(2) [OF that] False show ?thesis by simp
  qed
  have r0: "r0 = ip @ r1" by (rule il(1))
  have "scan_number (?sign @ ip @ r1) = Some (number_value neg ip fp ep, r3)"
    by (rule run [OF _ sf se]) (use si r0 in simp)
  with assms cs0 r0 have v: "v = number_value neg ip fp ep" and r: "r = r3"
    by simp_all
  let ?a = "?sign @ ip @ fp @ ep"
  have cs: "cs = ?a @ r"
    using cs0 r0 fl(1) el(1) r by simp
  have last_a: "is_digit (last ?a)"
    using ipd fl(2) el(2) by (cases "ep = []"; cases "fp = []"; simp)
  have hd_a: "hd ?a = CHR ''-'' \<or> is_digit (hd ?a)"
    using ipd by (cases ip) auto
  have loc: "scan_number (?a @ x) = Some (v, x)" if "follow x" for x
  proof -
    note fx = follow_cases [OF that]
    have b1: "(fp @ ep @ x) = [] \<or> \<not> is_digit (hd (fp @ ep @ x))"
      using fl(2) el(2) fx(1) not_digit_chars by (cases "fp = []"; cases "ep = []"; auto)
    have b2: "if fp = [] then (ep @ x) = [] \<or> hd (ep @ x) \<noteq> CHR ''.''
              else (ep @ x) = [] \<or> \<not> is_digit (hd (ep @ x))"
      using el(2) fx(1,2) not_digit_chars by (cases "ep = []"; auto)
    have b3: "if ep = [] then x = [] \<or> hd x \<noteq> CHR ''e'' \<and> hd x \<noteq> CHR ''E''
              else x = [] \<or> \<not> is_digit (hd x)"
      using fx(1,3) by auto
    have s1: "scan_int (ip @ fp @ ep @ x) = Some (ip, fp @ ep @ x)"
      by (rule ilx [OF b1])
    have s2: "scan_frac (fp @ ep @ x) = (fp, ep @ x)"
      by (rule flx [OF b2])
    have s3: "scan_exp (ep @ x) = (ep, x)"
      by (rule elx [OF b3])
    from run [OF s1 s2 s3] v show ?thesis by simp
  qed
  from cs last_a hd_a loc ipd(1) show ?thesis
    by (intro exI [of _ ?a]) simp
qed

lemma digit_plain: "is_digit c \<Longrightarrow> \<not> py_isspace c"
  by (auto simp: is_digit_def py_isspace_def Let_def)

text \<open>Literals, white space and strings.\<close>

lemma scan_literal_local:
  assumes "scan_literal cs = Some (v, r)"
  shows "\<exists>a. cs = a @ r \<and> a \<noteq> [] \<and> \<not> py_isspace (last a)
           \<and> (\<forall>x. follow x \<longrightarrow> scan_literal (a @ x) = Some (v, x))"
proof -
  have word: "\<exists>a. cs = a @ r \<and> a \<noteq> [] \<and> \<not> py_isspace (last a)
           \<and> (\<forall>x. follow x \<longrightarrow> scan_literal (a @ x) = Some (v, x))"
    if p: "prefix w cs" and r: "r = drop (length w) cs" and w: "w \<noteq> []"
      and l: "\<not> py_isspace (last w)"
      and e: "\<And>x. scan_literal (w @ x) = Some (v, x)" for w
  proof -
    from p r have "cs = w @ r" by (auto simp: prefix_def)
    with w l e show ?thesis by blast
  qed
  consider (null) "prefix ''null'' cs"
    | (true) "\<not> prefix ''null'' cs" "prefix ''true'' cs"
    | (false) "\<not> prefix ''null'' cs" "\<not> prefix ''true'' cs" "prefix ''false'' cs"
    | (num) y where "\<not> prefix ''null'' cs" "\<not> prefix ''true'' cs" "\<not> prefix ''false'' cs"
        "scan_number cs = Some y"
    | (nan) "\<not> prefix ''null'' cs" "\<not> prefix ''true'' cs" "\<not> prefix ''false'' cs"
        "scan_number cs = None" "prefix ''NaN'' cs"
    | (inf) "\<not> prefix ''null'' cs" "\<not> prefix ''true'' cs" "\<not> prefix ''false'' cs"
        "scan_number cs = None" "\<not> prefix ''NaN'' cs" "prefix ''Infinity'' cs"
    | (ninf) "\<not> prefix ''null'' cs" "\<not> prefix ''true'' cs" "\<not> prefix ''false'' cs"
        "scan_number cs = None" "\<not> prefix ''NaN'' cs" "\<not> prefix ''Infinity'' cs"
        "prefix ''-Infinity'' cs"
    using assms by (auto simp: scan_literal_def split: if_splits option.splits)
  then show ?thesis
  proof cases
    case null
    show ?thesis
    proof (rule word [of "''null''"])
      show "prefix ''null'' cs" by (rule null)
      show "r = drop (length ''null'') cs" using assms null by (simp add: scan_literal_def eval_nat_numeral)
      show "\<not> py_isspace (last ''null'')" by code_simp
      show "scan_literal (''null'' @ x) = Some (v, x)" for x
        using assms null by (simp add: scan_literal_def)
    qed simp
  next
    case true
    show ?thesis
    proof (rule word [of "''true''"])
      show "prefix ''true'' cs" by (rule true)
      show "r = drop (length ''true'') cs" using assms true by (simp add: scan_literal_def eval_nat_numeral)
      show "\<not> py_isspace (last ''true'')" by code_simp
      show "scan_literal (''true'' @ x) = Some (v, x)" for x
        using assms true by (simp add: scan_literal_def)
    qed simp
  next
    case false
    show ?thesis
    proof (rule word [of "''false''"])
      show "prefix ''false'' cs" by (rule false)
      show "r = drop (length ''false'') cs" using assms false by (simp add: scan_literal_def eval_nat_numeral)
      show "\<not> py_isspace (last ''false'')" by code_simp
      show "scan_literal (''false'' @ x) = Some (v, x)" for x
        using assms false by (simp add: scan_literal_def)
    qed simp
  next
    case num
    with assms have y: "scan_number cs = Some (v, r)"
      by (simp add: scan_literal_def)
    from scan_number_local [OF y] obtain a where
      a: "cs = a @ r" "a \<noteq> []" "is_digit (last a)" "hd a = CHR ''-'' \<or> is_digit (hd a)"
        "\<And>x. follow x \<Longrightarrow> scan_number (a @ x) = Some (v, x)"
      by blast
    obtain c t where ct: "a = c # t" using a(2) by (cases a) auto
    with a(4) have c: "c = CHR ''-'' \<or> is_digit c" by simp
    then have np: "\<not> prefix ''null'' (a @ x)" "\<not> prefix ''true'' (a @ x)"
      "\<not> prefix ''false'' (a @ x)" for x
      using ct by (auto simp: is_digit_def)
    have "scan_literal (a @ x) = Some (v, x)" if "follow x" for x
      using a(5) [OF that] np by (simp add: scan_literal_def)
    with a(1,2) digit_plain [OF a(3)] show ?thesis by blast
  next
    case nan
    show ?thesis
    proof (rule word [of "''NaN''"])
      show "prefix ''NaN'' cs" by (rule nan)
      show "r = drop (length ''NaN'') cs" using assms nan by (simp add: scan_literal_def eval_nat_numeral)
      show "\<not> py_isspace (last ''NaN'')" by code_simp
      show "scan_literal (''NaN'' @ x) = Some (v, x)" for x
        using assms nan scan_number_fail(2) [of "''NaN'' @ x"]
        by (simp add: scan_literal_def scan_int_def is_digit_def)
    qed simp
  next
    case inf
    show ?thesis
    proof (rule word [of "''Infinity''"])
      show "prefix ''Infinity'' cs" by (rule inf)
      show "r = drop (length ''Infinity'') cs" using assms inf by (simp add: scan_literal_def eval_nat_numeral)
      show "\<not> py_isspace (last ''Infinity'')" by code_simp
      show "scan_literal (''Infinity'' @ x) = Some (v, x)" for x
        using assms inf scan_number_fail(2) [of "''Infinity'' @ x"]
        by (simp add: scan_literal_def scan_int_def is_digit_def)
    qed simp
  next
    case ninf
    show ?thesis
    proof (rule word [of "''-Infinity''"])
      show "prefix ''-Infinity'' cs" by (rule ninf)
      show "r = drop (length ''-Infinity'') cs" using assms ninf by (simp add: scan_literal_def eval_nat_numeral)
      show "\<not> py_isspace (last ''-Infinity'')" by code_simp
      show "scan_literal (''-Infinity'' @ x) = Some (v, x)" for x
        using assms ninf scan_number_fail(1) [of "''Infinity'' @ x"]
        by (simp add: scan_literal_def scan_int_def is_digit_def)
    qed simp
  qed
qed

lemma skip_expect:
  assumes "skip_ws r1 = c # r2"
  shows "\<exists>w. r1 = w @ c # r2 \<and> list_all json_ws w \<and> \<not> json_ws c
             \<and> (\<forall>y. skip_ws (w @ c # y) = c # y)"
proof -
  let ?w = "takeWhile json_ws r1"
  have s: "r1 = ?w @ c # r2"
    using assms unfolding skip_ws_def by (metis takeWhile_dropWhile_id)
  have w: "list_all json_ws ?w"
    by (rule span_split(2))
  have c: "\<not> json_ws c"
    using assms unfolding skip_ws_def by (metis hd_dropWhile list.sel(1) list.distinct(1))
  have "skip_ws (?w @ c # y) = c # y" for y
    unfolding skip_ws_def using span_boundary(2) [OF w, of "c # y"] c by simp
  with s w c show ?thesis by blast
qed

lemma skip_then:
  assumes "skip_ws r = a @ r'" and "a \<noteq> []"
  shows "\<exists>w. r = w @ a @ r' \<and> list_all json_ws w \<and> (\<forall>y. skip_ws (w @ a @ y) = a @ y)"
proof -
  obtain c t where a: "a = c # t" using assms(2) by (cases a) auto
  with assms(1) have "skip_ws r = c # (t @ r')" by simp
  from skip_expect [OF this] obtain w where
    w: "r = w @ c # (t @ r')" "list_all json_ws w" "\<And>y. skip_ws (w @ c # y) = c # y"
    by blast
  have "skip_ws (w @ a @ y) = a @ y" for y
    using w(3) [of "t @ y"] a by simp
  with w(1,2) a show ?thesis by auto
qed

lemma json_ws_follow: "json_ws c \<Longrightarrow> follow (c # y)"
  by (auto simp: json_ws_def follow_def is_digit_def)

lemma follow_after:
  assumes "list_all json_ws w" and "c = CHR '','' \<or> c = CHR '']'' \<or> c = CHR ''}''"
  shows "follow (w @ c # y)"
proof (cases w)
  case Nil
  with assms(2) show ?thesis by (auto simp: follow_def is_digit_def)
next
  case (Cons d ds)
  with assms(1) have "json_ws d" by simp
  with Cons show ?thesis by (simp add: json_ws_follow)
qed

lemma scan_string_local:
  "scan_string cs acc = Some (str, r) \<Longrightarrow>
     \<exists>a. cs = a @ r \<and> a \<noteq> [] \<and> last a = CHR 0x22
        \<and> (\<forall>x. scan_string (a @ x) acc = Some (str, x))"
proof (induction cs acc arbitrary: str r rule: scan_string.induct)
  case (1 acc)
  then show ?case by simp
next
  case (2 c cs acc)
  show ?case
  proof (cases "c = CHR 0x22")
    case True
    with "2.prems" have "r = cs" "str = rev acc" by simp_all
    with True show ?thesis by (intro exI [of _ "[c]"]) simp
  next
    case nq: False
    show ?thesis
    proof (cases "c = CHR 0x5C")
      case bs: True
      with nq "2.prems" obtain e cs1 where cs: "cs = e # cs1"
        by (cases cs) auto
      show ?thesis
      proof (cases "e = CHR ''u''")
        case u: True
        with nq bs cs "2.prems" obtain x0 where
          ux: "unescape_u (take 4 cs1) = Some x0"
          and rec: "scan_string (drop 4 cs1) (x0 # acc) = Some (str, r)"
          by (auto split: option.splits)
        from ux obtain h1 h2 h3 h4 where "map hex_val (take 4 cs1) = [h1, h2, h3, h4]"
          by (auto simp: unescape_u_def split: list.splits option.splits)
        then have "length (map hex_val (take 4 cs1)) = 4"
          by simp
        then have len: "length (take 4 cs1) = 4"
          by (simp only: length_map)
        from "2.IH"(1) [OF nq bs cs u ux rec] obtain a where
          a: "drop 4 cs1 = a @ r" "a \<noteq> []" "last a = CHR 0x22"
            "\<And>x. scan_string (a @ x) (x0 # acc) = Some (str, x)"
          by blast
        let ?b = "c # e # take 4 cs1 @ a"
        have "cs1 = take 4 cs1 @ drop 4 cs1" by simp
        with a(1) cs have e1: "c # cs = ?b @ r" by (metis append.assoc append_Cons)
        have "scan_string (?b @ x) acc = Some (str, x)" for x
          using nq bs u ux len a(4) [of x] by simp
        with e1 a(2,3) show ?thesis
          by (intro exI [of _ ?b]) simp
      next
        case nu: False
        with nq bs cs "2.prems" obtain x0 where
          ux: "unescape e = Some x0"
          and rec: "scan_string cs1 (x0 # acc) = Some (str, r)"
          by (auto split: option.splits)
        from "2.IH"(2) [OF nq bs cs nu ux rec] obtain a where
          a: "cs1 = a @ r" "a \<noteq> []" "last a = CHR 0x22"
            "\<And>x. scan_string (a @ x) (x0 # acc) = Some (str, x)"
          by blast
        let ?b = "c # e # a"
        have "scan_string (?b @ x) acc = Some (str, x)" for x
          using nq bs nu ux a(4) [of x] by simp
        with a(1,2,3) cs show ?thesis
          by (intro exI [of _ ?b]) simp
      qed
    next
      case nb: False
      with nq "2.prems" have ctl: "\<not> (of_char c :: nat) < 32"
        and rec: "scan_string cs (c # acc) = Some (str, r)"
        by (auto split: if_splits)
      from "2.IH"(3) [OF nq nb ctl rec] obtain a where
        a: "cs = a @ r" "a \<noteq> []" "last a = CHR 0x22"
          "\<And>x. scan_string (a @ x) (c # acc) = Some (str, x)"
        by blast
      have "scan_string ((c # a) @ x) acc = Some (str, x)" for x
        using nq nb ctl a(4) [of x] by simp
      with a(1,2,3) show ?thesis
        by (intro exI [of _ "c # a"]) simp
    qed
  qed
qed

text \<open>Values, arrays and objects, by induction on the fuel.\<close>

lemma quote_plain: "\<not> py_isspace (CHR 0x22)" "\<not> py_isspace (CHR ''}'')" "\<not> py_isspace (CHR '']'')"
  by code_simp+

lemma parse_value_Suc:
  "parse_value (Suc n) (c # t) =
     (if c = CHR 0x22 then
        (case scan_string t [] of Some (s, r1) \<Rightarrow> Some (JStr s, r1) | None \<Rightarrow> None)
      else if c = CHR ''{'' then
        (case skip_ws t of [] \<Rightarrow> None
         | d # r1 \<Rightarrow> if d = CHR ''}'' then Some (JObj [], r1) else parse_members n (d # r1) [])
      else if c = CHR ''['' then
        (case skip_ws t of [] \<Rightarrow> None
         | d # r1 \<Rightarrow> if d = CHR '']'' then Some (JArr [], r1) else parse_elems n (d # r1) [])
      else scan_literal (c # t))"
  by simp

lemma bracket_local:
  assumes sk: "skip_ws t = d # r1"
    and alt: "d = cl \<and> r = r1 \<and> v = dflt
              \<or> d \<noteq> cl \<and> (\<exists>a. d # r1 = a @ r \<and> a \<noteq> [] \<and> last a = cl
                    \<and> (\<forall>x. inner (a @ x) = Some (v, x)))"
  shows "\<exists>b. t = b @ r \<and> b \<noteq> [] \<and> last b = cl
           \<and> (\<forall>x. (case skip_ws (b @ x) of [] \<Rightarrow> None
                     | d # r1 \<Rightarrow> if d = cl then Some (dflt, r1) else inner (d # r1))
                   = Some (v, x))"
proof -
  from skip_expect [OF sk] obtain w where
    w: "t = w @ d # r1" "list_all json_ws w" "\<And>y. skip_ws (w @ d # y) = d # y"
    by blast
  from alt show ?thesis
  proof
    assume e: "d = cl \<and> r = r1 \<and> v = dflt"
    let ?b = "w @ [d]"
    have "(case skip_ws (?b @ x) of [] \<Rightarrow> None
            | d # r1 \<Rightarrow> if d = cl then Some (dflt, r1) else inner (d # r1)) = Some (v, x)" for x
      using w(3) [of x] e by simp
    with w(1) e show ?thesis
      by (intro exI [of _ ?b]) simp
  next
    assume "d \<noteq> cl \<and> (\<exists>a. d # r1 = a @ r \<and> a \<noteq> [] \<and> last a = cl
                    \<and> (\<forall>x. inner (a @ x) = Some (v, x)))"
    then obtain a where nd: "d \<noteq> cl" and a: "d # r1 = a @ r" "a \<noteq> []" "last a = cl"
      "\<And>x. inner (a @ x) = Some (v, x)"
      by blast
    obtain u where au: "a = d # u"
      using a(1,2) by (cases a) auto
    let ?b = "w @ a"
    have "(case skip_ws (?b @ x) of [] \<Rightarrow> None
            | d # r1 \<Rightarrow> if d = cl then Some (dflt, r1) else inner (d # r1)) = Some (v, x)" for x
      using w(3) [of "u @ x"] au nd a(4) [of x] by simp
    moreover have "t = ?b @ r"
      using w(1) a(1) by simp
    ultimately show ?thesis
      using a(2,3) by (intro exI [of _ ?b]) simp
  qed
qed

lemma value_local_Suc:
  assumes el: "elems_local n" and ml: "members_local n"
  shows "value_local (Suc n)"
  unfolding value_local_def
proof (intro allI impI)
  fix cs v r
  assume pv: "parse_value (Suc n) cs = Some (v, r)"
  then obtain c t where cs: "cs = c # t"
    by (cases cs) auto
  note pv' = pv [unfolded cs parse_value_Suc]
  show "\<exists>a. cs = a @ r \<and> a \<noteq> [] \<and> \<not> py_isspace (last a)
          \<and> (\<forall>x. follow x \<longrightarrow> parse_value (Suc n) (a @ x) = Some (v, x))"
  proof (cases "c = CHR 0x22")
    case True
    with pv' obtain s where ss: "scan_string t [] = Some (s, r)" and v: "v = JStr s"
      by (auto split: option.splits)
    from scan_string_local [OF ss] obtain a where
      a: "t = a @ r" "a \<noteq> []" "last a = CHR 0x22" "\<And>x. scan_string (a @ x) [] = Some (s, x)"
      by blast
    have "parse_value (Suc n) ((c # a) @ x) = Some (v, x)" for x
      using True a(4) [of x] v by simp
    with cs a(1,2,3) quote_plain(1) show ?thesis
      by (intro exI [of _ "c # a"]) simp
  next
    case nq: False
    show ?thesis
    proof (cases "c = CHR ''{''")
      case True
      with nq pv' obtain d r1 where sk: "skip_ws t = d # r1"
        by (cases "skip_ws t") auto
      with nq True pv' have
        body: "(if d = CHR ''}'' then Some (JObj [], r1) else parse_members n (d # r1) []) = Some (v, r)"
        by simp
      have alt: "d = CHR ''}'' \<and> r = r1 \<and> v = JObj []
              \<or> d \<noteq> CHR ''}'' \<and> (\<exists>a. d # r1 = a @ r \<and> a \<noteq> [] \<and> last a = CHR ''}''
                    \<and> (\<forall>x. parse_members n (a @ x) [] = Some (v, x)))"
      proof (cases "d = CHR ''}''")
        case True
        with body show ?thesis by auto
      next
        case False
        with body have "parse_members n (d # r1) [] = Some (v, r)" by simp
        with ml False show ?thesis unfolding members_local_def by blast
      qed
      from bracket_local [where inner = "\<lambda>z. parse_members n z []", OF sk alt]
      obtain b where b: "t = b @ r" "b \<noteq> []" "last b = CHR ''}''"
        "\<And>x. (case skip_ws (b @ x) of [] \<Rightarrow> None
               | d # r1 \<Rightarrow> if d = CHR ''}'' then Some (JObj [], r1)
                           else parse_members n (d # r1) []) = Some (v, x)"
        by blast
      have "parse_value (Suc n) ((c # b) @ x) = Some (v, x)" for x
        using nq True b(4) [of x] by simp
      with cs b(1,2,3) quote_plain(2) show ?thesis
        by (intro exI [of _ "c # b"]) simp
    next
      case nb: False
      show ?thesis
      proof (cases "c = CHR ''[''")
        case True
        with nq nb pv' obtain d r1 where sk: "skip_ws t = d # r1"
          by (cases "skip_ws t") auto
        with nq nb True pv' have
          body: "(if d = CHR '']'' then Some (JArr [], r1) else parse_elems n (d # r1) []) = Some (v, r)"
          by simp
        have alt: "d = CHR '']'' \<and> r = r1 \<and> v = JArr []
                \<or> d \<noteq> CHR '']'' \<and> (\<exists>a. d # r1 = a @ r \<and> a \<noteq> [] \<and> last a = CHR '']''
                      \<and> (\<forall>x. parse_elems n (a @ x) [] = Some (v, x)))"
        proof (cases "d = CHR '']''")
          case True
          with body show ?thesis by auto
        next
          case False
          with body have "parse_elems n (d # r1) [] = Some (v, r)" by simp
          with el False show ?thesis unfolding elems_local_def by blast
        qed
        from bracket_local [where inner = "\<lambda>z. parse_elems n z []", OF sk alt]
        obtain b where b: "t = b @ r" "b \<noteq> []" "last b = CHR '']''"
          "\<And>x. (case skip_ws (b @ x) of [] \<Rightarrow> None
                 | d # r1 \<Rightarrow> if d = CHR '']'' then Some (JArr [], r1)
                             else parse_elems n (d # r1) []) = Some (v, x)"
          by blast
        have "parse_value (Suc n) ((c # b) @ x) = Some (v, x)" for x
          using nq nb True b(4) [of x] by simp
        with cs b(1,2,3) quote_plain(3) show ?thesis
          by (intro exI [of _ "c # b"]) simp
      next
        case na: False
        with nq nb pv' have sl: "scan_literal (c # t) = Some (v, r)" by simp
        from scan_literal_local [OF sl] obtain a where
          a: "c # t = a @ r" "a \<noteq> []" "\<not> py_isspace (last a)"
            "\<And>x. follow x \<Longrightarrow> scan_literal (a @ x) = Some (v, x)"
          by blast
        obtain u where au: "a = c # u"
          using a(1,2) by (cases a) auto
        have "parse_value (Suc n) (a @ x) = Some (v, x)" if "follow x" for x
          using a(4) [OF that] au nq nb na by simp
        with cs a(1,2,3) show ?thesis by blast
      qed
    qed
  qed
qed

lemma parse_elems_Suc:
  "parse_elems (Suc n) cs acc =
     (case parse_value n cs of
        None \<Rightarrow> None
      | Some (v, r) \<Rightarrow>
          (case skip_ws r of
             [] \<Rightarrow> None
           | c # r1 \<Rightarrow>
               if c = CHR '']'' then Some (JArr (acc @ [v]), r1)
               else if c = CHR '','' then parse_elems n (skip_ws r1) (acc @ [v])
               else None))"
  by simp

lemma elems_local_Suc:
  assumes vl: "value_local n" and el: "elems_local n"
  shows "elems_local (Suc n)"
  unfolding elems_local_def
proof (intro allI impI)
  fix cs acc v r
  assume pe: "parse_elems (Suc n) cs acc = Some (v, r)"
  then obtain v1 r1 where pv: "parse_value n cs = Some (v1, r1)"
    unfolding parse_elems_Suc by (cases "parse_value n cs") auto
  from vl pv obtain a1 where
    a1: "cs = a1 @ r1" "a1 \<noteq> []"
      "\<And>x. follow x \<Longrightarrow> parse_value n (a1 @ x) = Some (v1, x)"
    unfolding value_local_def by blast
  from pe pv obtain c r2 where sk: "skip_ws r1 = c # r2"
    unfolding parse_elems_Suc by (cases "skip_ws r1") auto
  from skip_expect [OF sk] obtain w where
    w: "r1 = w @ c # r2" "list_all json_ws w" "\<And>y. skip_ws (w @ c # y) = c # y"
    by blast
  from pe pv sk have
    body: "(if c = CHR '']'' then Some (JArr (acc @ [v1]), r2)
            else if c = CHR '','' then parse_elems n (skip_ws r2) (acc @ [v1])
            else None) = Some (v, r)"
    unfolding parse_elems_Suc by simp
  show "\<exists>a. cs = a @ r \<and> a \<noteq> [] \<and> last a = CHR '']''
          \<and> (\<forall>x. parse_elems (Suc n) (a @ x) acc = Some (v, x))"
  proof (cases "c = CHR '']''")
    case True
    with body have r: "r = r2" and v: "v = JArr (acc @ [v1])" by simp_all
    let ?a = "a1 @ w @ [c]"
    have "parse_elems (Suc n) (?a @ x) acc = Some (v, x)" for x
    proof -
      have f: "follow (w @ c # x)"
        by (rule follow_after [OF w(2)]) (use True in simp)
      have "parse_value n (a1 @ w @ c # x) = Some (v1, w @ c # x)"
        by (rule a1(3) [OF f])
      then show ?thesis
        unfolding parse_elems_Suc using w(3) [of x] True v by simp
    qed
    moreover have "cs = ?a @ r" using a1(1) w(1) r by simp
    ultimately show ?thesis
      using True by (intro exI [of _ ?a]) simp
  next
    case False
    with body have cc: "c = CHR '',''"
      and rec: "parse_elems n (skip_ws r2) (acc @ [v1]) = Some (v, r)"
      by (auto split: if_splits)
    from el rec obtain a2 where
      a2: "skip_ws r2 = a2 @ r" "a2 \<noteq> []" "last a2 = CHR '']''"
        "\<And>x. parse_elems n (a2 @ x) (acc @ [v1]) = Some (v, x)"
      unfolding elems_local_def by blast
    from skip_then [OF a2(1,2)] obtain w2 where
      w2: "r2 = w2 @ a2 @ r" "\<And>y. skip_ws (w2 @ a2 @ y) = a2 @ y"
      by blast
    let ?a = "a1 @ w @ c # w2 @ a2"
    have "parse_elems (Suc n) (?a @ x) acc = Some (v, x)" for x
    proof -
      have f: "follow (w @ c # w2 @ a2 @ x)"
        by (rule follow_after [OF w(2)]) (use cc in simp)
      have "parse_value n (a1 @ w @ c # w2 @ a2 @ x) = Some (v1, w @ c # w2 @ a2 @ x)"
        by (rule a1(3) [OF f])
      then show ?thesis
        unfolding parse_elems_Suc
        using w(3) [of "w2 @ a2 @ x"] w2(2) [of x] a2(4) [of x] cc by simp
    qed
    moreover have "cs = ?a @ r" using a1(1) w(1) w2(1) by simp
    ultimately show ?thesis
      using a2(2,3) by (intro exI [of _ ?a]) simp
  qed
qed

lemma parse_members_Suc:
  "parse_members (Suc n) (q # t) acc =
     (if q = CHR 0x22 then
        (case scan_string t [] of
           None \<Rightarrow> None
         | Some (k, r1) \<Rightarrow>
             (case skip_ws r1 of
                [] \<Rightarrow> None
              | c # r2 \<Rightarrow>
                  if c = CHR '':'' then
                    (case parse_value n (skip_ws r2) of
                       None \<Rightarrow> None
                     | Some (v, r3) \<Rightarrow>
                         (case skip_ws r3 of
                            [] \<Rightarrow> None
                          | d # r4 \<Rightarrow>
                              if d = CHR ''}'' then Some (JObj (dict_set acc k v), r4)
                              else if d = CHR '','' then
                                parse_members n (skip_ws r4) (dict_set acc k v)
                              else None))
                  else None))
      else None)"
  by simp

lemma members_local_Suc:
  assumes vl: "value_local n" and ml: "members_local n"
  shows "members_local (Suc n)"
  unfolding members_local_def
proof (intro allI impI)
  fix cs acc v r
  assume pm: "parse_members (Suc n) cs acc = Some (v, r)"
  then obtain q t where cs: "cs = q # t"
    by (cases cs) auto
  note pm' = pm [unfolded cs parse_members_Suc]
  from pm' have q: "q = CHR 0x22"
    by (auto split: if_splits)
  from pm' q obtain k r1 where ss: "scan_string t [] = Some (k, r1)"
    by (cases "scan_string t []") auto
  from scan_string_local [OF ss] obtain ak where
    ak: "t = ak @ r1" "\<And>x. scan_string (ak @ x) [] = Some (k, x)"
    by blast
  from pm' q ss obtain c r2 where sk1: "skip_ws r1 = c # r2"
    by (cases "skip_ws r1") auto
  from pm' q ss sk1 have c: "c = CHR '':''"
    by (auto split: if_splits)
  from skip_expect [OF sk1] obtain w1 where
    w1: "r1 = w1 @ c # r2" "\<And>y. skip_ws (w1 @ c # y) = c # y"
    by blast
  from pm' q ss sk1 c obtain v1 r3 where pv: "parse_value n (skip_ws r2) = Some (v1, r3)"
    by (cases "parse_value n (skip_ws r2)") auto
  from vl pv obtain av where
    av: "skip_ws r2 = av @ r3" "av \<noteq> []"
      "\<And>x. follow x \<Longrightarrow> parse_value n (av @ x) = Some (v1, x)"
    unfolding value_local_def by blast
  from skip_then [OF av(1,2)] obtain w2 where
    w2: "r2 = w2 @ av @ r3" "\<And>y. skip_ws (w2 @ av @ y) = av @ y"
    by blast
  from pm' q ss sk1 c pv obtain d r4 where sk3: "skip_ws r3 = d # r4"
    by (cases "skip_ws r3") auto
  from skip_expect [OF sk3] obtain w3 where
    w3: "r3 = w3 @ d # r4" "list_all json_ws w3" "\<And>y. skip_ws (w3 @ d # y) = d # y"
    by blast
  from pm' q ss sk1 c pv sk3 have
    body: "(if d = CHR ''}'' then Some (JObj (dict_set acc k v1), r4)
            else if d = CHR '','' then parse_members n (skip_ws r4) (dict_set acc k v1)
            else None) = Some (v, r)"
    by simp
  have front: "parse_members (Suc n) (q # ak @ w1 @ c # w2 @ av @ w3 @ d # y) acc
      = (if d = CHR ''}'' then Some (JObj (dict_set acc k v1), y)
         else if d = CHR '','' then parse_members n (skip_ws y) (dict_set acc k v1)
         else None)"
    if d: "d = CHR ''}'' \<or> d = CHR '',''" for y
  proof -
    have f: "follow (w3 @ d # y)"
      by (rule follow_after [OF w3(2)]) (use d in auto)
    have p: "parse_value n (av @ w3 @ d # y) = Some (v1, w3 @ d # y)"
      by (rule av(3) [OF f])
    show ?thesis
      unfolding parse_members_Suc
      using q ak(2) [of "w1 @ c # w2 @ av @ w3 @ d # y"] w1(2) [of "w2 @ av @ w3 @ d # y"] c
        w2(2) [of "w3 @ d # y"] p w3(3) [of y]
      by simp
  qed
  have whole: "cs = q # ak @ w1 @ c # w2 @ av @ w3 @ d # r4"
    using cs ak(1) w1(1) w2(1) w3(1) by simp
  show "\<exists>a. cs = a @ r \<and> a \<noteq> [] \<and> last a = CHR ''}''
          \<and> (\<forall>x. parse_members (Suc n) (a @ x) acc = Some (v, x))"
  proof (cases "d = CHR ''}''")
    case True
    with body have r: "r = r4" and v: "v = JObj (dict_set acc k v1)" by simp_all
    let ?a = "q # ak @ w1 @ c # w2 @ av @ w3 @ [d]"
    have "parse_members (Suc n) (?a @ x) acc = Some (v, x)" for x
      using front [of x] True v by simp
    moreover have "cs = ?a @ r" using whole r by simp
    ultimately show ?thesis
      using True by (intro exI [of _ ?a]) simp
  next
    case False
    with body have dc: "d = CHR '',''"
      and rec: "parse_members n (skip_ws r4) (dict_set acc k v1) = Some (v, r)"
      by (auto split: if_splits)
    from ml rec obtain am where
      am: "skip_ws r4 = am @ r" "am \<noteq> []" "last am = CHR ''}''"
        "\<And>x. parse_members n (am @ x) (dict_set acc k v1) = Some (v, x)"
      unfolding members_local_def by blast
    from skip_then [OF am(1,2)] obtain w4 where
      w4: "r4 = w4 @ am @ r" "\<And>y. skip_ws (w4 @ am @ y) = am @ y"
      by blast
    let ?a = "q # ak @ w1 @ c # w2 @ av @ w3 @ d # w4 @ am"
    have "parse_members (Suc n) (?a @ x) acc = Some (v, x)" for x
      using front [of "w4 @ am @ x"] dc w4(2) [of x] am(4) [of x] by simp
    moreover have "cs = ?a @ r" using whole w4(1) by simp
    ultimately show ?thesis
      using am(2,3) by (intro exI [of _ ?a]) simp
  qed
qed

lemma parse_local: "value_local n \<and> elems_local n \<and> members_local n"
proof (induction n)
  case 0
  show ?case
    by (simp add: value_local_def elems_local_def members_local_def)
next
  case (Suc n)
  then show ?case
    using value_local_Suc elems_local_Suc members_local_Suc by blast
qed

subsection \<open>Trimming a text that decodes\<close>

text \<open>
  The white space of JSON is white space for \<^verbatim>\<open>str.strip\<close>, and a value neither starts nor
  ends with white space: trimming a text that decodes leaves the value's own text, which
  decodes to the same value.
\<close>

lemma fuel_ws: "list_all json_ws w \<Longrightarrow> filter (\<lambda>c. \<not> json_ws c) w = []"
  by (induction w) auto

lemma fuel_trim:
  assumes "list_all json_ws w" and "list_all json_ws r"
  shows "fuel (w @ a @ r) = fuel a"
  using fuel_ws [OF assms(1)] fuel_ws [OF assms(2)] by (simp add: fuel_def)

lemma skip_ws_all: "skip_ws r = [] \<Longrightarrow> list_all json_ws r"
  by (simp add: skip_ws_def list_all_iff)

lemma all_json_ws_space: "list_all json_ws w \<Longrightarrow> list_all py_isspace w"
  by (auto simp: list_all_iff json_ws_space)

lemma loads_span:
  assumes "loads s = Inr v"
  shows "\<exists>w a r. s = w @ a @ r \<and> list_all json_ws w \<and> list_all json_ws r
           \<and> a \<noteq> [] \<and> \<not> py_isspace (hd a) \<and> \<not> py_isspace (last a)
           \<and> parse_value (fuel s) a = Some (v, [])"
proof -
  from assms obtain r where pv: "parse_value (fuel s) (skip_ws s) = Some (v, r)"
    and fin: "skip_ws r = []"
    by (auto simp: loads_def split: option.splits prod.splits if_splits)
  from parse_local [of "fuel s"] pv obtain a where
    a: "skip_ws s = a @ r" "a \<noteq> []" "\<not> py_isspace (last a)"
      and loc: "\<And>x. follow x \<Longrightarrow> parse_value (fuel s) (a @ x) = Some (v, x)"
    unfolding value_local_def by blast
  from parse_value_start [OF pv] obtain c t where
    ct: "skip_ws s = c # t" "\<not> py_isspace c"
    by blast
  from a(1,2) ct have hd: "\<not> py_isspace (hd a)"
    by (cases a) auto
  have s: "s = takeWhile json_ws s @ a @ r"
    using a(1) unfolding skip_ws_def by (metis takeWhile_dropWhile_id)
  have w: "list_all json_ws (takeWhile json_ws s)"
    by (auto simp: list_all_iff dest: set_takeWhileD)
  have "follow []"
    by (simp add: follow_def)
  from loc [OF this] have "parse_value (fuel s) a = Some (v, [])"
    by simp
  with s w skip_ws_all [OF fin] a(2,3) hd show ?thesis
    by blast
qed

lemma strip_span:
  assumes "list_all py_isspace w" and "list_all py_isspace r"
    and "a \<noteq> []" and "\<not> py_isspace (hd a)" and "\<not> py_isspace (last a)"
  shows "py_strip (w @ a @ r) = a"
proof -
  from assms(3,4) have l: "py_lstrip (a @ r) = a @ r"
    by (cases a) (simp_all add: py_lstrip_def)
  have "py_lstrip (w @ a @ r) = a @ r"
    using assms(1) l by (simp only: lstrip_append if_True)
  moreover have "py_rstrip a = a"
    using assms(3,5) by (cases a rule: rev_cases) (simp_all add: py_rstrip_def)
  then have "py_rstrip (a @ r) = a"
    using assms(2) by (simp only: rstrip_append if_True)
  ultimately show ?thesis
    by (simp add: py_strip_def)
qed

lemma loads_strip:
  assumes "loads s = Inr v"
  shows "loads (py_strip s) = Inr v"
proof -
  from loads_span [OF assms] obtain w a r where
    s: "s = w @ a @ r" and w: "list_all json_ws w" and r: "list_all json_ws r"
    and a: "a \<noteq> []" "\<not> py_isspace (hd a)" "\<not> py_isspace (last a)"
    and pv: "parse_value (fuel s) a = Some (v, [])"
    by blast
  have st: "py_strip s = a"
    unfolding s by (rule strip_span [OF all_json_ws_space [OF w] all_json_ws_space [OF r] a])
  have fu: "fuel s = fuel a"
    unfolding s by (rule fuel_trim [OF w r])
  from a(1,2) have "\<not> json_ws (hd a)"
    using json_ws_space by blast
  with a(1) have sk: "skip_ws a = a"
    by (cases a) (simp_all add: skip_ws_def)
  have e: "skip_ws [] = []"
    by (simp add: skip_ws_def)
  have "parse_value (fuel a) (skip_ws a) = Some (v, [])"
    using pv unfolding sk fu .
  then have "loads a = Inr v"
    unfolding loads_def by (simp add: e)
  then show ?thesis
    unfolding st .
qed

text \<open>
  C3, as the code has it, for both cleaners (\<^verbatim>\<open>call_claude\<close> of \<^verbatim>\<open>recipe_cli.py\<close> and
  \<^verbatim>\<open>_call_claude\<close> of \<^verbatim>\<open>main.py\<close>). The text handed to \<^verbatim>\<open>json.loads\<close> is the payload
  \<open>s\<close> trimmed,
  \<^item> for a bare payload that does not start with a fence marker;
  \<^item> for every payload between a leading fence line, with any language tag, and a trailing
    fence, with white space allowed before and after the trailing fence;
  \<^item> for a payload behind a leading fence line alone, when the payload holds no fence
    marker.

  These hold for every payload and every decoder. For the decoder \<open>loads\<close>, a payload
  that decodes to a value does not start with a fence marker, trimmed or not, and the
  trimmed payload decodes to the same value: in each of the three cases the cleaned reply
  parses to the JSON value of \<open>s\<close>.
\<close>

theorem cleaner_round_trip:
  assumes "NL \<notin> set tag" and "list_all py_isspace gap" and "list_all py_isspace tail"
  shows "(\<not> prefix fence (py_strip s) \<longrightarrow> clean_cli s = py_strip s)
       \<and> (\<not> prefix fence s \<longrightarrow> clean_main s = Inr (py_strip s))
       \<and> clean_cli (wrap_both tag s gap tail) = py_strip s
       \<and> clean_main (wrap_both tag s gap tail) = Inr (py_strip s)
       \<and> (\<not> sublist fence s \<longrightarrow>
            clean_cli (wrap_leading tag s) = py_strip s
          \<and> clean_main (wrap_leading tag s) = Inr (py_strip s))
       \<and> (loads s = Inr v \<longrightarrow>
            \<not> prefix fence s \<and> \<not> prefix fence (py_strip s)
          \<and> loads (py_strip s) = Inr v)"
proof -
  have "loads s = Inr v \<longrightarrow>
          \<not> prefix fence s \<and> \<not> prefix fence (py_strip s) \<and> loads (py_strip s) = Inr v"
    using valid_json_not_fenced [of s v] loads_strip [of s v] by blast
  then show ?thesis
    using clean_cli_bare [of s] clean_main_bare [of s]
      clean_cli_both [OF assms] clean_main_both [OF assms]
      clean_cli_leading [OF assms(1), of s] clean_main_leading [OF assms(1), of s]
    by blast
qed

text \<open>
  The payload \<^verbatim>\<open>{"a": 1}\<close> in the three wrappings: every cleaned reply decodes to the
  dict of the payload.
\<close>

theorem cleaner_round_trip_witness:
  \<open>loads ''{"a": 1}'' = Inr (JObj [(''a'', JInt 1)])
   \<and> loads (clean_cli ''{"a": 1}'') = Inr (JObj [(''a'', JInt 1)])
   \<and> res_bind (clean_main ''{"a": 1}'') loads = Inr (JObj [(''a'', JInt 1)])
   \<and> loads (clean_cli (wrap_both ''json'' ''{"a": 1}'' [NL] [NL]))
       = Inr (JObj [(''a'', JInt 1)])
   \<and> res_bind (clean_main (wrap_both ''json'' ''{"a": 1}'' [NL] [NL])) loads
       = Inr (JObj [(''a'', JInt 1)])
   \<and> loads (clean_cli (wrap_leading ''json'' ''{"a": 1}'')) = Inr (JObj [(''a'', JInt 1)])
   \<and> res_bind (clean_main (wrap_leading ''json'' ''{"a": 1}'')) loads
       = Inr (JObj [(''a'', JInt 1)])\<close>
proof -
  let ?s = \<open>''{"a": 1}''\<close>
  let ?v = "JObj [(''a'', JInt 1)]"
  have tag: "NL \<notin> set ''json''"
    by (simp add: NL_def)
  have ws: "list_all py_isspace [NL]"
    by (simp add: NL_space)
  have sub: "\<not> sublist fence ?s"
    by code_simp
  have dec: "loads ?s = Inr ?v"
    by code_simp
  note rt = cleaner_round_trip [OF tag ws ws, of ?s ?v]
  from rt dec have st: "loads (py_strip ?s) = Inr ?v"
    and p: "\<not> prefix fence ?s" "\<not> prefix fence (py_strip ?s)"
    by blast+
  from rt p sub have
    c: "clean_cli ?s = py_strip ?s"
       "clean_cli (wrap_both ''json'' ?s [NL] [NL]) = py_strip ?s"
       "clean_cli (wrap_leading ''json'' ?s) = py_strip ?s"
    and m: "clean_main ?s = Inr (py_strip ?s)"
       "clean_main (wrap_both ''json'' ?s [NL] [NL]) = Inr (py_strip ?s)"
       "clean_main (wrap_leading ''json'' ?s) = Inr (py_strip ?s)"
    by blast+
  have b: "res_bind (Inr (py_strip ?s)) loads = loads (py_strip ?s)"
    by (simp add: res_bind_def)
  show ?thesis
    unfolding c m b using dec st by blast
qed

text \<open>
  The payload \<^verbatim>\<open>"```"\<close> is valid JSON, a string of three backticks. Behind a leading fence
  line alone, both cleaners cut it at the marker inside the string and hand a lone quote
  to the decoder, which refuses it.
\<close>

theorem cleaner_round_trip_counterexample:
  \<open>loads ''"```"'' = Inr (JStr ''```'')
   \<and> clean_cli (wrap_leading ''json'' ''"```"'') = ''"''
   \<and> loads (clean_cli (wrap_leading ''json'' ''"```"''))
       = Inl (Exn JSONDecodeError ''Expecting value'')
   \<and> clean_main (wrap_leading ''json'' ''"```"'') = Inr ''"''
   \<and> res_bind (clean_main (wrap_leading ''json'' ''"```"'')) loads
       = Inl (Exn JSONDecodeError ''Expecting value'')\<close>
  by code_simp

end
